theory Spec2Isabelle
  imports Main "HOL-Library.Char_ord" "HOL-Library.List_Lexorder"
begin

section \<open>Strings and the path functions of \<open>os.path\<close> (POSIX flavour)\<close>

text \<open>
  File names are \<open>string\<close>s (lists of 8-bit characters). The order on strings is the
  lexicographic order on character codes (\<open>Char_ord\<close>, \<open>List_Lexorder\<close>), which is how
  Python compares two \<open>str\<close> values. The path separator is \<open>/\<close>.
\<close>

definition sep :: char where
  "sep = CHR ''/''"

definition extsep :: char where
  "extsep = CHR ''.''"

text \<open>\<open>s.startswith(c)\<close> and \<open>s.endswith(c)\<close> for a one-character \<open>c\<close>.\<close>

fun startswith :: "string \<Rightarrow> char \<Rightarrow> bool" where
  "startswith [] c = False"
| "startswith (x # xs) c = (x = c)"

definition endswith :: "string \<Rightarrow> char \<Rightarrow> bool" where
  "endswith s c = startswith (rev s) c"

text \<open>\<open>s.rstrip(c)\<close>, \<open>s.lstrip(c)\<close> and \<open>s.strip(c)\<close> for a one-character \<open>c\<close>.\<close>

definition lstrip :: "char \<Rightarrow> string \<Rightarrow> string" where
  "lstrip c s = dropWhile (\<lambda>x. x = c) s"

definition rstrip :: "char \<Rightarrow> string \<Rightarrow> string" where
  "rstrip c s = rev (dropWhile (\<lambda>x. x = c) (rev s))"

definition strip :: "char \<Rightarrow> string \<Rightarrow> string" where
  "strip c s = rstrip c (lstrip c s)"

text \<open>
  \<open>s.rfind(c)\<close>: the index of the last occurrence of \<open>c\<close>, or \<open>-1\<close>. The scan runs
  left to right and remembers the last hit.
\<close>

primrec rfind_from :: "char \<Rightarrow> string \<Rightarrow> int \<Rightarrow> int \<Rightarrow> int" where
  "rfind_from c [] i found = found"
| "rfind_from c (x # xs) i found = rfind_from c xs (i + 1) (if x = c then i else found)"

definition rfind :: "string \<Rightarrow> char \<Rightarrow> int" where
  "rfind s c = rfind_from c s 0 (- 1)"

text \<open>The slices \<open>p[:i]\<close> and \<open>p[i:]\<close> for an index \<open>i \<ge> 0\<close>.\<close>

definition slice_to :: "string \<Rightarrow> int \<Rightarrow> string" where
  "slice_to p i = take (nat i) p"

definition slice_from :: "string \<Rightarrow> int \<Rightarrow> string" where
  "slice_from p i = drop (nat i) p"

text \<open>
  \<open>s.lower()\<close> on ASCII letters; every other character is left as it is
  (Python 3 also lowers the letters outside ASCII).
\<close>

definition lower_char :: "char \<Rightarrow> char" where
  "lower_char c =
     (case map_of (zip ''ABCDEFGHIJKLMNOPQRSTUVWXYZ'' ''abcdefghijklmnopqrstuvwxyz'') c of
        Some l \<Rightarrow> l
      | None \<Rightarrow> c)"

definition lower :: "string \<Rightarrow> string" where
  "lower s = map lower_char s"

text \<open>\<open>s.split(c)\<close>: never empty; \<open>''''.split('/') = ['''']\<close>.\<close>

fun split_on :: "char \<Rightarrow> string \<Rightarrow> string list" where
  "split_on c [] = [[]]"
| "split_on c (x # xs) =
     (if x = c then [] # split_on c xs
      else (x # hd (split_on c xs)) # tl (split_on c xs))"

text \<open>\<open>s.join(comps)\<close>.\<close>

fun join_with :: "string \<Rightarrow> string list \<Rightarrow> string" where
  "join_with s [] = []"
| "join_with s [w] = w"
| "join_with s (w # v # ws) = w @ s @ join_with s (v # ws)"

text \<open>
  \<open>os.path.basename\<close>:
  \<^verbatim>\<open>i = p.rfind(sep) + 1; return p[i:]\<close>
\<close>

definition os_path_basename :: "string \<Rightarrow> string" where
  "os_path_basename p = (let i = rfind p sep + 1 in slice_from p i)"

text \<open>
  \<open>os.path.dirname\<close>:
  \<^verbatim>\<open>
  i = p.rfind(sep) + 1
  head = p[:i]
  if head and head != sep*len(head):
      head = head.rstrip(sep)
  return head\<close>
\<close>

definition os_path_dirname :: "string \<Rightarrow> string" where
  "os_path_dirname p =
     (let i = rfind p sep + 1;
          head = slice_to p i
      in if head \<noteq> [] \<and> head \<noteq> replicate (length head) sep then rstrip sep head else head)"

text \<open>
  \<open>os.path.splitext\<close> (\<open>genericpath._splitext\<close>): the extension starts at the last dot
  of the last path component, unless that component has only dots before it.
  \<^verbatim>\<open>
  sepIndex = p.rfind(sep)
  dotIndex = p.rfind(extsep)
  if dotIndex > sepIndex:
      filenameIndex = sepIndex + 1
      while filenameIndex < dotIndex:
          if p[filenameIndex:filenameIndex+1] != extsep:
              return p[:dotIndex], p[dotIndex:]
          filenameIndex += 1
  return p, p[:0]\<close>
\<close>

function has_non_dot :: "string \<Rightarrow> int \<Rightarrow> int \<Rightarrow> bool" where
  "has_non_dot p filenameIndex dotIndex =
     (if filenameIndex < dotIndex then
        (if slice_to (slice_from p filenameIndex) 1 \<noteq> [extsep] then True
         else has_non_dot p (filenameIndex + 1) dotIndex)
      else False)"
  by pat_completeness auto
termination
  by (relation "measure (\<lambda>(p, f, d). nat (d - f))") auto

definition os_path_splitext :: "string \<Rightarrow> string \<times> string" where
  "os_path_splitext p =
     (let sepIndex = rfind p sep;
          dotIndex = rfind p extsep
      in if dotIndex > sepIndex \<and> has_non_dot p (sepIndex + 1) dotIndex
         then (slice_to p dotIndex, slice_from p dotIndex)
         else (p, []))"

text \<open>
  \<open>os.path.join(a, b)\<close> with one component to add:
  \<^verbatim>\<open>
  if b.startswith(sep): path = b
  elif not path or path.endswith(sep): path += b
  else: path += sep + b\<close>
\<close>

definition os_path_join :: "string \<Rightarrow> string \<Rightarrow> string" where
  "os_path_join a b =
     (if startswith b sep then b
      else if a = [] \<or> endswith a sep then a @ b
      else a @ [sep] @ b)"

text \<open>
  \<open>os.path.normpath\<close>:
  \<^verbatim>\<open>
  if not path: return dot
  initial_slashes = path.startswith(sep)
  if initial_slashes and path.startswith(sep*2) and not path.startswith(sep*3):
      initial_slashes = 2
  comps = path.split(sep)
  new_comps = []
  for comp in comps:
      if comp in (empty, dot): continue
      if (comp != dotdot or (not initial_slashes and not new_comps) or
              (new_comps and new_comps[-1] == dotdot)):
          new_comps.append(comp)
      elif new_comps:
          new_comps.pop()
  path = sep.join(new_comps)
  if initial_slashes: path = sep*initial_slashes + path
  return path or dot\<close>
\<close>

definition initial_slashes :: "string \<Rightarrow> nat" where
  "initial_slashes path =
     (if startswith path sep then
        (if take 2 path = [sep, sep] \<and> take 3 path \<noteq> [sep, sep, sep] then 2 else 1)
      else 0)"

definition norm_step :: "nat \<Rightarrow> string list \<Rightarrow> string \<Rightarrow> string list" where
  "norm_step slashes new_comps component =
     (if component = [] \<or> component = ''.'' then new_comps
      else if component \<noteq> ''..'' \<or> (slashes = 0 \<and> new_comps = [])
              \<or> (new_comps \<noteq> [] \<and> last new_comps = ''..'')
        then new_comps @ [component]
      else if new_comps \<noteq> [] then butlast new_comps
      else new_comps)"

definition os_path_normpath :: "string \<Rightarrow> string" where
  "os_path_normpath path =
     (if path = [] then ''.''
      else
        let slashes = initial_slashes path;
            comps = split_on sep path;
            new_comps = foldl (norm_step slashes) [] comps;
            joined = replicate slashes sep @ join_with [sep] new_comps
        in if joined = [] then ''.'' else joined)"

text \<open>
  The components \<open>normpath\<close> keeps: none is empty, \<open>.\<close> or contains the
  separator; \<open>..\<close> stands only at the front, and not at all in an absolute path.
\<close>

definition norm_comps :: "nat \<Rightarrow> string list \<Rightarrow> bool" where
  "norm_comps s cs \<longleftrightarrow>
     (\<forall>c \<in> set cs. c \<noteq> [] \<and> c \<noteq> ''.'' \<and> sep \<notin> set c)
     \<and> ''..'' \<notin> set (dropWhile (\<lambda>c. c = ''..'') cs)
     \<and> (0 < s \<longrightarrow> ''..'' \<notin> set cs)"

section \<open>\<open>File\<close>: classification and the output path\<close>

text \<open>
  The class \<open>File\<close> of \<open>mkdocs/structure/files.py\<close>. The tuple \<open>MARKDOWN_EXTENSIONS\<close>
  is imported from \<open>mkdocs.utils\<close>; it is a parameter \<open>md\<close> of every function that
  reads it.
\<close>

record File =
  root :: string
  extension :: string
  input_path :: string
  full_input_path :: string
  output_path :: string

definition is_documentation_page :: "string list \<Rightarrow> File \<Rightarrow> bool" where
  "is_documentation_page md self = (extension self \<in> set md)"

definition is_static_page :: "File \<Rightarrow> bool" where
  "is_static_page self = (extension self \<in> set [''.html'', ''.htm'', ''.xml'', ''.json''])"

definition is_media_file :: "string list \<Rightarrow> File \<Rightarrow> bool" where
  "is_media_file md self = (\<not> (is_documentation_page md self \<or> is_static_page self))"

definition is_javascript :: "File \<Rightarrow> bool" where
  "is_javascript self = (extension self \<in> set [''.js'', ''.javascript''])"

definition is_css :: "File \<Rightarrow> bool" where
  "is_css self = (extension self \<in> set [''.css''])"

text \<open>
  \<open>File.get_output_path\<close>; it reads \<open>root\<close>, \<open>extension\<close> and \<open>input_path\<close> of \<open>self\<close>.
\<close>

definition get_output_path :: "string list \<Rightarrow> File \<Rightarrow> string" where
  "get_output_path md self =
     (if is_documentation_page md self then
        (let directory =
               (if root self \<in> set [''index'', ''README'']
                then os_path_dirname (input_path self)
                else fst (os_path_splitext (input_path self)))
         in os_path_normpath (os_path_join directory ''index.html''))
      else os_path_normpath (input_path self))"

text \<open>
  \<open>File.__init__(from_dir, path, filename=None)\<close>. The fields are assigned in the
  source's order; \<open>output_path\<close> is computed last, from the other fields.
\<close>

definition File_init :: "string list \<Rightarrow> string \<Rightarrow> string \<Rightarrow> string option \<Rightarrow> File" where
  "File_init md from_dir path filename =
     (let filename' = (case filename of None \<Rightarrow> os_path_basename path | Some f \<Rightarrow> f);
          (root', extension') = os_path_splitext filename';
          self = \<lparr> root = root',
                   extension = lower extension',
                   input_path = path,
                   full_input_path = os_path_normpath (os_path_join from_dir path),
                   output_path = [] \<rparr>
      in self \<lparr> output_path := get_output_path md self \<rparr>)"

section \<open>\<open>fnmatch\<close>: shell-style matching\<close>

text \<open>
  \<open>fnmatch.fnmatch(name, pat)\<close> of the standard library: on POSIX \<open>normcase\<close> is the
  identity, \<open>fnmatch.translate\<close> turns the pattern into a regular expression and the
  whole name must match it. The translation is modelled as a list of tokens: \<open>*\<close>
  matches any run of characters (also \<open>/\<close>), \<open>?\<close> any one character, \<open>[seq]\<close> and
  \<open>[!seq]\<close> one character in (not in) \<open>seq\<close>, where \<open>a-b\<close> inside \<open>seq\<close> is a range,
  and any other character matches itself. A \<open>[\<close> with no closing \<open>]\<close> is a literal.
  (A reversed range such as \<open>z-a\<close> is an empty range here, where CPython's
  treatment depends on its version; no pattern of this repository has a bracket.)
\<close>

datatype glob_tok = Star | AnyChar | Lit char | CharClass bool string

text \<open>
  The scan for the closing bracket, on the pattern after the \<open>[\<close>:
  \<^verbatim>\<open>
  j = i
  if j < n and pat[j] == '!': j = j+1
  if j < n and pat[j] == ']': j = j+1
  while j < n and pat[j] != ']': j = j+1\<close>
\<close>

definition class_end :: "string \<Rightarrow> nat" where
  "class_end pat =
     (let j0 = (if startswith pat (CHR ''!'') then 1 else 0);
          j1 = (if startswith (drop j0 pat) (CHR '']'') then j0 + 1 else j0)
      in j1 + length (takeWhile (\<lambda>x. x \<noteq> CHR '']'') (drop j1 pat)))"

function translate :: "string \<Rightarrow> glob_tok list" where
  "translate [] = []"
| "translate (c # pat) =
     (if c = CHR ''*'' then Star # translate pat
      else if c = CHR ''?'' then AnyChar # translate pat
      else if c = CHR ''['' then
        (let j = class_end pat in
         if j \<ge> length pat then Lit (CHR ''['') # translate pat
         else
           (let stuff = take j pat in
            (if startswith stuff (CHR ''!'') then CharClass True (tl stuff)
             else CharClass False stuff) # translate (drop (j + 1) pat)))
      else Lit c # translate pat)"
  by pat_completeness auto
termination
  by (relation "measure length") auto

fun class_mem :: "string \<Rightarrow> char \<Rightarrow> bool" where
  "class_mem [] x = False"
| "class_mem [a] x = (x = a)"
| "class_mem [a, b] x = (x = a \<or> x = b)"
| "class_mem (a # b # c # rest) x =
     (if b = CHR ''-'' then (a \<le> x \<and> x \<le> c) \<or> class_mem rest x
      else x = a \<or> class_mem (b # c # rest) x)"

fun glob_match :: "glob_tok list \<Rightarrow> string \<Rightarrow> bool" where
  "glob_match [] s = (s = [])"
| "glob_match (Star # ts) [] = glob_match ts []"
| "glob_match (Star # ts) (x # s) = (glob_match ts (x # s) \<or> glob_match (Star # ts) s)"
| "glob_match (AnyChar # ts) [] = False"
| "glob_match (AnyChar # ts) (x # s) = glob_match ts s"
| "glob_match (Lit c # ts) [] = False"
| "glob_match (Lit c # ts) (x # s) = (x = c \<and> glob_match ts s)"
| "glob_match (CharClass neg body # ts) [] = False"
| "glob_match (CharClass neg body # ts) (x # s) =
     ((class_mem body x \<noteq> neg) \<and> glob_match ts s)"

definition fnmatch :: "string \<Rightarrow> string \<Rightarrow> bool" where
  "fnmatch name pat = glob_match (translate pat) name"

section \<open>\<open>_filter_paths\<close>, \<open>sort_files\<close> and \<open>get_files\<close>\<close>

text \<open>
  \<open>_filter_paths(basename, path, is_dir, exclude)\<close>:
  \<^verbatim>\<open>
  for item in exclude:
      if item.endswith('/') and not is_dir:
          continue
      match = path if item.startswith('/') else basename
      if fnmatch.fnmatch(match, item.strip('/')):
          return True
  return False\<close>
\<close>

fun filter_paths :: "string \<Rightarrow> string \<Rightarrow> bool \<Rightarrow> string list \<Rightarrow> bool" where
  "filter_paths basename path is_dir [] = False"
| "filter_paths basename path is_dir (item # exclude) =
     (if endswith item (CHR ''/'') \<and> \<not> is_dir then filter_paths basename path is_dir exclude
      else
        (let match = (if startswith item (CHR ''/'') then path else basename)
         in if fnmatch match (strip (CHR ''/'') item) then True
            else filter_paths basename path is_dir exclude))"

text \<open>The local list \<open>exclude\<close> of \<open>get_files\<close>.\<close>

definition exclude :: "string list" where
  "exclude = [''.*'', ''/templates'']"

text \<open>
  The comparison function local to \<open>sort_files\<close>:
  \<^verbatim>\<open>
  def compare(x, y):
      if x == y:
          return 0
      if os.path.splitext(y)[0] == 'index':
          return 1
      if  os.path.splitext(x)[0] == 'index' or x < y:
          return -1
      return 1\<close>
\<close>

definition compare :: "string \<Rightarrow> string \<Rightarrow> int" where
  "compare x y =
     (if x = y then 0
      else if fst (os_path_splitext y) = ''index'' then 1
      else if fst (os_path_splitext x) = ''index'' \<or> x < y then - 1
      else 1)"

text \<open>
  A name is an index file when its root (\<open>os.path.splitext(x)[0]\<close>) is \<open>index\<close>.
  \<open>cmp_lt\<close> is the \<open><\<close> of the key objects that \<open>cmp_to_key(compare)\<close> makes.
\<close>

definition is_index :: "string \<Rightarrow> bool" where
  "is_index x = (fst (os_path_splitext x) = ''index'')"

definition cmp_lt :: "string \<Rightarrow> string \<Rightarrow> bool" where
  "cmp_lt a b = (compare a b < 0)"

text \<open>
  \<open>sorted(filenames, key=cmp_to_key(compare))\<close>. The key objects of \<open>cmp_to_key\<close>
  compare by \<open>compare(a, b) < 0\<close>, and \<open>sorted\<close> is a stable sort that only asks for
  this \<open><\<close>. It is modelled as the stable insertion sort (the binary insertion of
  CPython's \<open>list.sort\<close>, which puts a new element before the first element it is
  less than): the names are inserted from left to right. The relation
  \<open>compare a b < 0\<close> is a strict weak order (lemmas \<open>cmp_lt_irrefl\<close>, \<open>cmp_lt_trans\<close>,
  \<open>cmp_lt_incomparable_trans\<close>), so every stable sort returns this same list.
\<close>

fun insort_cmp :: "('a \<Rightarrow> 'a \<Rightarrow> int) \<Rightarrow> 'a \<Rightarrow> 'a list \<Rightarrow> 'a list" where
  "insort_cmp cmp x [] = [x]"
| "insort_cmp cmp x (y # ys) =
     (if cmp x y < 0 then x # y # ys else y # insort_cmp cmp x ys)"

definition sorted_cmp :: "('a \<Rightarrow> 'a \<Rightarrow> int) \<Rightarrow> 'a list \<Rightarrow> 'a list" where
  "sorted_cmp cmp xs = foldl (\<lambda>acc x. insort_cmp cmp x acc) [] xs"

definition sort_files :: "string list \<Rightarrow> string list" where
  "sort_files filenames = sorted_cmp compare filenames"

text \<open>
  \<open>get_files(from_dir)\<close> walks the source tree with \<open>os.walk\<close>. The tree is a value:
  a directory has its subdirectories (name and subtree) and its file names, each in
  the order \<open>os.walk\<close> lists them. \<open>os.walk\<close> is top-down: it yields a directory,
  then walks the subdirectories left in \<open>dirnames\<close>, in the order the caller left
  them. \<open>relative_dir\<close> is \<open>os.path.relpath(source_dir, from_dir)\<close>: \<open>.\<close> at the
  root, and below it the normalised join of the parent's \<open>relative_dir\<close> and the
  directory's name.
\<close>

datatype dir_tree = Dir "(string \<times> dir_tree) list" "string list"

text \<open>
  \<^verbatim>\<open>
  for dirname in list(dirnames):
      path = os.path.normpath(os.path.join(relative_dir, dirname))
      if _filter_paths(basename=dirname, path=path, is_dir=True, exclude=exclude):
          dirnames.remove(dirname)
  dirnames.sort()\<close>
\<close>

fun prune_dirnames :: "string \<Rightarrow> string list \<Rightarrow> string list \<Rightarrow> string list" where
  "prune_dirnames relative_dir [] dirnames = dirnames"
| "prune_dirnames relative_dir (dirname # copy) dirnames =
     (let path = os_path_normpath (os_path_join relative_dir dirname)
      in prune_dirnames relative_dir copy
           (if filter_paths dirname path True exclude then remove1 dirname dirnames
            else dirnames))"

text \<open>
  \<^verbatim>\<open>
  for filename in sort_files(filenames):
      path = os.path.normpath(os.path.join(relative_dir, filename))
      if _filter_paths(basename=filename, path=path, is_dir=False, exclude=exclude):
          continue
      file = File(from_dir, path, filename)
      files.append(file)\<close>
\<close>

fun collect_files :: "string list \<Rightarrow> string \<Rightarrow> string \<Rightarrow> string list \<Rightarrow> File list" where
  "collect_files md from_dir relative_dir [] = []"
| "collect_files md from_dir relative_dir (filename # filenames) =
     (let path = os_path_normpath (os_path_join relative_dir filename)
      in if filter_paths filename path False exclude
         then collect_files md from_dir relative_dir filenames
         else File_init md from_dir path (Some filename)
                # collect_files md from_dir relative_dir filenames)"

lemma map_of_dir_tree_size:
  "map_of subdirs d = Some t \<Longrightarrow> size t < Suc (size_list (size_prod (\<lambda>_. 0) size) subdirs)"
  by (induction subdirs) (auto split: if_splits)

function walk_files :: "string list \<Rightarrow> string \<Rightarrow> string \<Rightarrow> dir_tree \<Rightarrow> File list" where
  "walk_files md from_dir relative_dir (Dir subdirs filenames) =
     (let dirnames = map fst subdirs;
          dirnames' = sort (prune_dirnames relative_dir dirnames dirnames)
      in collect_files md from_dir relative_dir (sort_files filenames)
         @ concat (map (\<lambda>dirname.
              (case map_of subdirs dirname of
                 None \<Rightarrow> []
               | Some t \<Rightarrow>
                   walk_files md from_dir
                     (os_path_normpath (os_path_join relative_dir dirname)) t))
            dirnames'))"
  by pat_completeness auto
termination
  by (relation "measure (\<lambda>(md, from_dir, relative_dir, t). size t)")
     (auto dest: map_of_dir_tree_size)

text \<open>
  \<open>get_files\<close> returns \<open>Files(files)\<close>; the model returns the list \<open>files\<close>, which is
  what \<open>Files\<close> iterates over.
\<close>

definition get_files :: "string list \<Rightarrow> string \<Rightarrow> dir_tree \<Rightarrow> File list" where
  "get_files md from_dir tree = walk_files md from_dir ''.'' tree"


section \<open>Plugins: configuration, registry and hook dispatch\<close>

text \<open>
  The module \<open>mkdocs/plugins.py\<close> (\<open>BasePlugin\<close>, \<open>PluginCollection\<close>) and
  \<open>config_options.Type\<close> are not among the source files; only their tests
  (\<open>mkdocs/tests/plugin_tests.py\<close>) are. They are modelled from the specification,
  and \<open>DummyPlugin\<close> from the tests.
\<close>

text \<open>The values the tests put into options: strings and integers.\<close>

datatype pyval = PStr string | PInt int

text \<open>
  Modelled from the spec: the errors of the plugin subsystem, which is not in the
  source files: \<open>UnknownHookError\<close> ("dispatch requested for a hook name outside the
  recognized set"), the registry's \<open>KeyError("unknown plugin")\<close> (\<open>UnknownPlugin\<close>),
  and the \<open>KeyError\<close> and \<open>TypeError\<close> that a handler of \<open>DummyPlugin\<close> can raise.
\<close>

datatype error =
    UnknownHookError string
  | UnknownPlugin string
  | KeyError string
  | TypeError

text \<open>
  Modelled from the spec: the messages of \<open>loadConfig\<close>, which is not in the source
  files: "an error message containing the key name", "a warning message containing
  the key name". A message is a pair of the key and a text (the tests check
  \<open>'foo' in errors[0]\<close>), and it contains a key name when that is its key.
\<close>

type_synonym message = "string \<times> string"

definition mentions :: "string \<Rightarrow> message \<Rightarrow> bool" where
  "mentions key msg = (fst msg = key)"

text \<open>
  Modelled from the spec: validators and schemes, which are not in the source files:
  "validate(rawValue) -> value, raises ValidationError(message)" (\<open>Inl message\<close> is
  the failure); a scheme is "an ordered set of (key, validator, default) triples".
\<close>

type_synonym validator = "pyval \<Rightarrow> string + pyval"

type_synonym scheme = "(string \<times> validator \<times> pyval) list"

text \<open>Options are a dictionary in insertion order: an association list.\<close>

type_synonym options = "(string \<times> pyval) list"

text \<open>
  Modelled from the spec: \<open>BasePlugin.load_config\<close> (\<open>loadConfig\<close>), which is not in
  the source files. "For each declared scheme entry (key, validator, default): if key
  present in options, run validator; validator failure appends an error message
  containing the key name; success stores the validated value into config[key]. If key
  absent, config[key] = default." After a failure "the key's config value remains its
  default".
\<close>

fun validate_entries ::
  "scheme \<Rightarrow> options \<Rightarrow> (string \<rightharpoonup> pyval) \<times> message list
     \<Rightarrow> (string \<rightharpoonup> pyval) \<times> message list" where
  "validate_entries [] opts (config, errors) = (config, errors)"
| "validate_entries ((key, validate, dflt) # entries) opts (config, errors) =
     (case map_of opts key of
        None \<Rightarrow> validate_entries entries opts (config(key \<mapsto> dflt), errors)
      | Some raw \<Rightarrow>
          (case validate raw of
             Inl reason \<Rightarrow>
               validate_entries entries opts (config(key \<mapsto> dflt), errors @ [(key, reason)])
           | Inr v \<Rightarrow> validate_entries entries opts (config(key \<mapsto> v), errors)))"

text \<open>
  Modelled from the spec: the warnings of \<open>loadConfig\<close>. "For each key in options not
  declared in the scheme: append a warning message containing the key name; the value
  is ignored (not stored)."
\<close>

fun unknown_keys :: "scheme \<Rightarrow> options \<Rightarrow> message list" where
  "unknown_keys sch [] = []"
| "unknown_keys sch ((key, raw) # opts) =
     (if key \<in> set (map fst sch) then unknown_keys sch opts
      else (key, ''Unrecognised configuration name: '' @ key) # unknown_keys sch opts)"

text \<open>
  Modelled from the spec: a plugin instance (\<open>BasePlugin\<close>, not in the source files).
  It has its scheme, its \<open>config\<close> ("key -> validated value") and the handlers it
  defines, by hook name; a handler reads the instance's \<open>config\<close> and the payload,
  and returns a new payload, nothing (\<open>None\<close>), or fails.
\<close>

record 'a plugin =
  config_scheme :: scheme
  config :: "string \<rightharpoonup> pyval"
  handlers :: "string \<Rightarrow> ((string \<rightharpoonup> pyval) \<Rightarrow> 'a \<Rightarrow> error + 'a option) option"

text \<open>
  Modelled from the spec: \<open>loadConfig(options) -> (errors, warnings)\<close>
  (\<open>BasePlugin.load_config\<close>, not in the source files); "config on the instance is
  fully replaced (not merged) on each loadConfig call".
\<close>

definition load_config ::
  "'a plugin \<Rightarrow> options \<Rightarrow> 'a plugin \<times> message list \<times> message list" where
  "load_config self opts =
     (let (config', errors) = validate_entries (config_scheme self) opts (Map.empty, []);
          warnings = unknown_keys (config_scheme self) opts
      in (self \<lparr> config := config' \<rparr>, errors, warnings))"

text \<open>
  Modelled from the spec: \<open>config_options.Type(utils.string_types)\<close>, which is not in
  the source files; a validator that accepts the values of one type.
\<close>

fun Type_str :: validator where
  "Type_str (PStr s) = Inr (PStr s)"
| "Type_str (PInt i) = Inl ''Expected type: str but received: int''"

text \<open>
  Modelled from the spec: \<open>config_options.Type(int)\<close>, not in the source files.
\<close>

fun Type_int :: validator where
  "Type_int (PInt i) = Inr (PInt i)"
| "Type_int (PStr s) = Inl ''Expected type: int but received: str''"

text \<open>
  \<open>DummyPlugin\<close> of \<open>plugin_tests.py\<close>:
  \<^verbatim>\<open>
  config_scheme = (
      ('foo', config.config_options.Type(utils.string_types, default='default foo')),
      ('bar', config.config_options.Type(int, default=0))
  )
  def on_pre_page(self, content, **kwargs):
      return ' '.join((self.config['foo'], content))
  def on_post_nav(self, item, **kwargs):
      return None\<close>
\<close>

definition on_pre_page :: "(string \<rightharpoonup> pyval) \<Rightarrow> string \<Rightarrow> error + string option" where
  "on_pre_page cfg content =
     (case cfg ''foo'' of
        None \<Rightarrow> Inl (KeyError ''foo'')
      | Some (PStr foo) \<Rightarrow> Inr (Some (foo @ '' '' @ content))
      | Some (PInt i) \<Rightarrow> Inl TypeError)"

definition on_post_nav :: "(string \<rightharpoonup> pyval) \<Rightarrow> string \<Rightarrow> error + string option" where
  "on_post_nav cfg item = Inr None"

definition DummyPlugin :: "string plugin" where
  "DummyPlugin =
     \<lparr> config_scheme = [(''foo'', Type_str, PStr ''default foo''), (''bar'', Type_int, PInt 0)],
       config = Map.empty,
       handlers = (\<lambda>hook. if hook = ''pre_page'' then Some on_pre_page
                          else if hook = ''post_nav'' then Some on_post_nav
                          else None) \<rparr>"

text \<open>
  Modelled from the spec: \<open>PluginRegistry\<close> (\<open>PluginCollection\<close>), which is not in the
  source files: an "insertion-ordered mapping from plugin name (string, unique) to
  PluginInstance"; \<open>set(name, instance)\<close> "inserts or overwrites, preserving original
  position on overwrite"; \<open>get(name) -> instance or KeyError("unknown plugin")\<close>;
  \<open>items()\<close> yields the pairs in insertion order.
\<close>

type_synonym 'a registry = "(string \<times> 'a plugin) list"

fun registry_set :: "'a registry \<Rightarrow> string \<Rightarrow> 'a plugin \<Rightarrow> 'a registry" where
  "registry_set [] name inst = [(name, inst)]"
| "registry_set ((n, p) # reg) name inst =
     (if n = name then (name, inst) # reg else (n, p) # registry_set reg name inst)"

text \<open>
  Modelled from the spec: \<open>PluginRegistry.get(name) -> instance or
  KeyError("unknown plugin")\<close>, not in the source files.
\<close>

definition registry_get :: "'a registry \<Rightarrow> string \<Rightarrow> error + 'a plugin" where
  "registry_get reg name =
     (case map_of reg name of None \<Rightarrow> Inl (UnknownPlugin name) | Some inst \<Rightarrow> Inr inst)"

text \<open>
  Modelled from the spec: the membership test of \<open>PluginRegistry\<close>, not in the source
  files.
\<close>

definition registry_contains :: "'a registry \<Rightarrow> string \<Rightarrow> bool" where
  "registry_contains reg name = (name \<in> set (map fst reg))"

text \<open>
  Modelled from the spec: \<open>PluginRegistry.items()\<close>, not in the source files: "yielding
  (name, instance) pairs in insertion order".
\<close>

definition items :: "'a registry \<Rightarrow> (string \<times> 'a plugin) list" where
  "items reg = reg"

text \<open>The position of a name in \<open>items()\<close>, if it is registered.\<close>

fun position :: "string \<Rightarrow> (string \<times> 'b) list \<Rightarrow> nat option" where
  "position name [] = None"
| "position name ((n, p) # rest) =
     (if n = name then Some 0 else map_option Suc (position name rest))"

text \<open>
  Modelled from the spec: \<open>HookDispatcher.run(hookName, payload)\<close>
  (\<open>PluginCollection.run_event\<close>), which is not in the source files. "For each (name,
  instance) in registry insertion order, if instance defines a handler for hookName,
  call it with (payload, **context); if it returns a non-null result, that result
  becomes the payload threaded to the next plugin; if it returns null/none, the payload
  is left unchanged for the next plugin. If the hook name is not in the set of
  recognized hook names, fail with UnknownHookError." A failing handler "propagates
  as an error/exception to the caller". The set of recognized hook names is the
  parameter \<open>events\<close>.
\<close>

fun run_plugins :: "string \<Rightarrow> (string \<times> 'a plugin) list \<Rightarrow> 'a \<Rightarrow> error + 'a" where
  "run_plugins hook [] payload = Inr payload"
| "run_plugins hook ((name, inst) # rest) payload =
     (case handlers inst hook of
        None \<Rightarrow> run_plugins hook rest payload
      | Some handler \<Rightarrow>
          (case handler (config inst) payload of
             Inl e \<Rightarrow> Inl e
           | Inr None \<Rightarrow> run_plugins hook rest payload
           | Inr (Some result) \<Rightarrow> run_plugins hook rest result))"

text \<open>
  Modelled from the spec: the entry point \<open>HookDispatcher.run\<close>, not in the source
  files; the hook name is checked against the recognized names before any plugin
  runs.
\<close>

definition run_event :: "string list \<Rightarrow> 'a registry \<Rightarrow> string \<Rightarrow> 'a \<Rightarrow> error + 'a" where
  "run_event events reg hook payload =
     (if hook \<notin> set events then Inl (UnknownHookError hook)
      else run_plugins hook (items reg) payload)"


section \<open>Facts about matching against the default exclusion list\<close>

lemma glob_match_Star: "glob_match [Star] s"
  by (induction s) auto

lemma glob_match_Lits: "glob_match (map Lit xs) s \<longleftrightarrow> s = xs"
proof (induction xs arbitrary: s)
  case Nil
  then show ?case by simp
next
  case (Cons x xs)
  then show ?case by (cases s) auto
qed

lemma translate_dot_star: "translate ''.*'' = [Lit (CHR ''.''), Star]"
  by simp

lemma translate_templates: "translate ''templates'' = map Lit ''templates''"
  by simp

lemma fnmatch_dot_star: "fnmatch name ''.*'' \<longleftrightarrow> startswith name (CHR ''.'')"
  by (cases name) (auto simp: fnmatch_def glob_match_Star)

lemma fnmatch_templates: "fnmatch name ''templates'' \<longleftrightarrow> name = ''templates''"
  unfolding fnmatch_def translate_templates by (rule glob_match_Lits)

lemma strip_dot_star: "strip (CHR ''/'') ''.*'' = ''.*''"
  by (simp add: strip_def lstrip_def rstrip_def)

lemma strip_templates: "strip (CHR ''/'') ''/templates'' = ''templates''"
  by (simp add: strip_def lstrip_def rstrip_def)

text \<open>
  With the default list, an entry is excluded exactly when its base name starts with
  a dot or its path (relative to the source root) is \<open>templates\<close>; \<open>is_dir\<close> plays
  no part, since neither pattern ends with \<open>/\<close>.
\<close>

lemma filter_paths_exclude:
  "filter_paths basename path is_dir exclude \<longleftrightarrow>
     startswith basename (CHR ''.'') \<or> path = ''templates''"
  by (simp add: exclude_def endswith_def strip_dot_star strip_templates
      fnmatch_dot_star fnmatch_templates)

section \<open>The comparison function of \<open>sort_files\<close>\<close>

lemma splitext_index_md: "os_path_splitext ''index.md'' = (''index'', ''.md'')"
  by code_simp

text \<open>
  C4 (as amended). For two different file names \<open>x\<close> and \<open>y\<close>, if the root of \<open>y\<close>
  (its name without the extension) is \<open>index\<close>, \<open>compare x y\<close> returns \<open>1\<close>: \<open>x\<close> is
  ordered after \<open>y\<close>, so the index file comes first.
\<close>

theorem compare_index_second:
  "x \<noteq> y \<Longrightarrow> fst (os_path_splitext y) = ''index'' \<Longrightarrow> compare x y = 1"
  by (simp add: compare_def)

theorem compare_index_second_witness:
  "''a.md'' \<noteq> ''index.md'' \<and> fst (os_path_splitext ''index.md'') = ''index''
   \<and> compare ''a.md'' ''index.md'' = 1"
proof -
  have h1: "''a.md'' \<noteq> ''index.md''" by simp
  have h2: "fst (os_path_splitext ''index.md'') = ''index''" by (simp add: splitext_index_md)
  show ?thesis using compare_index_second [OF h1 h2] h1 h2 by simp
qed

text \<open>
  The claim as it was stated (the result is \<open>-1\<close>) fails for \<open>x = a.md\<close> and
  \<open>y = index.md\<close>.
\<close>

theorem compare_index_second_counterexample:
  "''a.md'' \<noteq> ''index.md'' \<and> fst (os_path_splitext ''index.md'') = ''index''
   \<and> compare ''a.md'' ''index.md'' \<noteq> - 1"
  by (simp add: compare_def splitext_index_md)

section \<open>\<open>os.path.normpath\<close> returns a normal form\<close>

lemma split_on_not_Nil: "split_on c s \<noteq> []"
  by (induction s) auto

lemma split_on_sep_free: "w \<in> set (split_on c s) \<Longrightarrow> c \<notin> set w"
proof (induction s arbitrary: w)
  case Nil
  then show ?case by simp
next
  case (Cons x s)
  then show ?case
    by (cases "split_on c s") (auto simp: split_on_not_Nil split: if_splits)
qed

lemma split_on_sep_free_word: "c \<notin> set w \<Longrightarrow> split_on c w = [w]"
  by (induction w) auto

lemma split_on_append_sep:
  "split_on c (a @ c # b) = split_on c a @ split_on c b"
  by (induction a) (auto simp: split_on_not_Nil)

lemma split_on_append_free:
  "c \<notin> set w \<Longrightarrow> split_on c (w @ c # b) = w # split_on c b"
  by (induction w) auto

lemma split_on_join:
  "ws \<noteq> [] \<Longrightarrow> \<forall>w \<in> set ws. c \<notin> set w \<Longrightarrow> split_on c (join_with [c] ws) = ws"
proof (induction "[c]" ws rule: join_with.induct)
  case 1
  then show ?case by simp
next
  case (2 w)
  then show ?case by (simp add: split_on_sep_free_word)
next
  case (3 w v ws)
  then show ?case by (simp add: split_on_append_free)
qed

lemma norm_comps_Nil: "norm_comps s []"
  by (simp add: norm_comps_def)

lemma dropWhile_butlast_subset:
  "set (dropWhile P (butlast xs)) \<subseteq> set (dropWhile P xs)"
  by (metis (no_types, lifting) Nil_is_append_conv append_butlast_last_id
    butlast_snoc dropWhile_append1 dropWhile_eq_Nil_conv in_set_butlastD
    split_list_first subsetI)

lemma dropWhile_snoc_not:
  "\<not> P c \<Longrightarrow> set (dropWhile P (xs @ [c])) = insert c (set (dropWhile P xs))"
  by (induction xs) auto

lemma dropWhile_all_eq:
  "x \<notin> set (dropWhile (\<lambda>c. c = x) acc) \<Longrightarrow> acc \<noteq> [] \<Longrightarrow> last acc = x
   \<Longrightarrow> c \<in> set acc \<Longrightarrow> c = x"
proof (induction acc)
  case Nil
  then show ?case by simp
next
  case (Cons a acc)
  show ?case
  proof (cases "a = x")
    case True
    show ?thesis
    proof (cases "acc = []")
      case True
      with Cons.prems \<open>a = x\<close> show ?thesis by simp
    next
      case False
      with Cons \<open>a = x\<close> show ?thesis by auto
    qed
  next
    case False
    then have "dropWhile (\<lambda>c. c = x) (a # acc) = a # acc" by simp
    with Cons.prems(1) have "x \<notin> set (a # acc)" by simp
    moreover have "last (a # acc) \<in> set (a # acc)" by (rule last_in_set) simp
    ultimately show ?thesis using Cons.prems(3) by metis
  qed
qed

lemma dropWhile_all_dotdot:
  assumes "''..'' \<notin> set (dropWhile (\<lambda>c. c = ''..'') acc)" and "acc \<noteq> []" and "last acc = ''..''"
  shows "\<forall>c \<in> set acc. c = ''..''"
  using dropWhile_all_eq [OF assms] by blast

lemma norm_step_comps:
  assumes "norm_comps s acc" and "sep \<notin> set c"
  shows "norm_comps s (norm_step s acc c)"
proof -
  consider (skip) "c = [] \<or> c = ''.''"
    | (plain) "c \<noteq> []" "c \<noteq> ''.''" "c \<noteq> ''..''"
    | (up_first) "c = ''..''" "s = 0" "acc = []"
    | (up_more) "c = ''..''" "acc \<noteq> []" "last acc = ''..''"
    | (pop) "c = ''..''" "acc \<noteq> []" "last acc \<noteq> ''..''"
    | (stay) "c = ''..''" "acc = []" "s \<noteq> 0"
    by blast
  then show ?thesis
  proof cases
    case skip
    then show ?thesis using assms by (auto simp: norm_step_def)
  next
    case plain
    then have "norm_step s acc c = acc @ [c]" by (simp add: norm_step_def)
    then show ?thesis using assms plain
      by (auto simp: norm_comps_def dropWhile_snoc_not)
  next
    case up_first
    then show ?thesis by (simp add: norm_step_def norm_comps_def sep_def)
  next
    case up_more
    from assms have d: "''..'' \<notin> set (dropWhile (\<lambda>c. c = ''..'') acc)"
      by (simp add: norm_comps_def)
    have all: "\<forall>c \<in> set acc. c = ''..''"
      using dropWhile_all_dotdot [OF d up_more(2,3)] .
    have s0: "s = 0" using assms up_more all by (cases acc) (auto simp: norm_comps_def)
    have "norm_step s acc c = acc @ [c]" using up_more by (simp add: norm_step_def)
    then show ?thesis using assms up_more all s0
      by (auto simp: norm_comps_def sep_def)
  next
    case pop
    then have "norm_step s acc c = butlast acc" by (simp add: norm_step_def)
    then show ?thesis using assms dropWhile_butlast_subset [of "\<lambda>c. c = ''..''" acc]
      by (auto simp: norm_comps_def dest: in_set_butlastD)
  next
    case stay
    then show ?thesis by (simp add: norm_step_def norm_comps_def)
  qed
qed

lemma foldl_norm_step_comps:
  "norm_comps s acc \<Longrightarrow> \<forall>c \<in> set cs. sep \<notin> set c \<Longrightarrow> norm_comps s (foldl (norm_step s) acc cs)"
  by (induction cs arbitrary: acc) (auto simp: norm_step_comps)

lemma foldl_norm_step_fixed:
  "norm_comps s (acc @ cs) \<Longrightarrow> foldl (norm_step s) acc cs = acc @ cs"
proof (induction cs arbitrary: acc)
  case Nil
  then show ?case by simp
next
  case (Cons c cs)
  have c: "c \<noteq> []" "c \<noteq> ''.''"
    using Cons.prems by (auto simp: norm_comps_def)
  have step: "norm_step s acc c = acc @ [c]"
  proof (cases "c = ''..''")
    case False
    then show ?thesis using c by (simp add: norm_step_def)
  next
    case True
    have s0: "s = 0" using Cons.prems True by (auto simp: norm_comps_def)
    have d: "''..'' \<notin> set (dropWhile (\<lambda>c. c = ''..'') (acc @ c # cs))"
      using Cons.prems by (simp add: norm_comps_def)
    have all: "\<forall>x \<in> set acc. x = ''..''"
    proof (rule ccontr)
      assume "\<not> (\<forall>x \<in> set acc. x = ''..'')"
      then obtain x where "x \<in> set acc" "x \<noteq> ''..''" by blast
      then have "dropWhile (\<lambda>c. c = ''..'') (acc @ c # cs)
                 = dropWhile (\<lambda>c. c = ''..'') acc @ c # cs"
        by (simp add: dropWhile_append1)
      with d True show False by simp
    qed
    then have "acc = [] \<or> last acc = ''..''" by (cases acc rule: rev_cases) auto
    then show ?thesis using True s0 by (auto simp: norm_step_def)
  qed
  from Cons.prems have "norm_comps s ((acc @ [c]) @ cs)" by simp
  from Cons.IH [OF this] step show ?case by simp
qed

lemma foldl_norm_step_skip:
  "foldl (norm_step s) acc (replicate n [] @ cs) = foldl (norm_step s) acc cs"
  by (induction n) (auto simp: norm_step_def)

lemma split_on_replicate_sep:
  "split_on c (replicate n c @ s) = replicate n [] @ split_on c s"
  by (induction n) auto

lemma join_with_Cons_nonempty:
  "ws \<noteq> [] \<Longrightarrow> \<forall>w \<in> set ws. w \<noteq> [] \<Longrightarrow> join_with s ws \<noteq> []"
  by (induction s ws rule: join_with.induct) auto

lemma join_with_hd:
  "ws \<noteq> [] \<Longrightarrow> hd ws \<noteq> [] \<Longrightarrow> hd (join_with s ws) = hd (hd ws)"
  by (induction s ws rule: join_with.induct) auto

lemma join_with_no_leading_sep:
  assumes "\<forall>c \<in> set cs. c \<noteq> [] \<and> sep \<notin> set c"
  shows "\<not> startswith (join_with [sep] cs) sep"
proof (cases cs)
  case Nil
  then show ?thesis by simp
next
  case (Cons c cs')
  with assms obtain x xs where c: "c = x # xs" "x \<noteq> sep" by (cases c) auto
  have "join_with [sep] (c # cs') = x # tl (join_with [sep] (c # cs'))"
    using c by (cases cs') auto
  then show ?thesis using Cons c by (metis startswith.simps(2))
qed

lemma initial_slashes_join:
  assumes "\<not> startswith j sep" and "s \<le> 2"
  shows "initial_slashes (replicate s sep @ j) = s"
proof -
  consider "s = 0" | "s = 1" | "s = 2" using assms(2) by linarith
  then show ?thesis
  proof cases
    case 1
    then show ?thesis using assms(1) by (simp add: initial_slashes_def)
  next
    case 2
    then show ?thesis using assms(1) by (cases j) (auto simp: initial_slashes_def)
  next
    case 3
    then show ?thesis using assms(1)
      by (cases j) (auto simp: initial_slashes_def numeral_2_eq_2)
  qed
qed

lemma normpath_of_comps:
  assumes "norm_comps s cs" and "s \<le> 2" and "s = 0 \<longrightarrow> cs \<noteq> []"
  shows "os_path_normpath (replicate s sep @ join_with [sep] cs) = replicate s sep @ join_with [sep] cs"
proof -
  define r where "r = replicate s sep @ join_with [sep] cs"
  have elems: "\<forall>c \<in> set cs. c \<noteq> [] \<and> sep \<notin> set c"
    using assms(1) by (simp add: norm_comps_def)
  have ne: "r \<noteq> []"
  proof (cases "s = 0")
    case True
    with assms(3) have "cs \<noteq> []" by simp
    then have "join_with [sep] cs \<noteq> []" using elems by (intro join_with_Cons_nonempty) auto
    then show ?thesis by (simp add: r_def)
  next
    case False
    then show ?thesis by (simp add: r_def)
  qed
  have sl: "initial_slashes r = s"
    unfolding r_def using join_with_no_leading_sep [OF elems] assms(2) by (rule initial_slashes_join)
  have sp: "split_on sep r = replicate s [] @ (if cs = [] then [[]] else cs)"
  proof (cases "cs = []")
    case True
    then show ?thesis using split_on_replicate_sep [of sep s "[]"] by (simp add: r_def)
  next
    case False
    then have "split_on sep (join_with [sep] cs) = cs" using elems by (intro split_on_join) auto
    then show ?thesis using False by (simp add: r_def split_on_replicate_sep)
  qed
  have fo: "foldl (norm_step s) [] (split_on sep r) = cs"
  proof (cases "cs = []")
    case True
    then show ?thesis unfolding sp foldl_norm_step_skip by (simp add: norm_step_def)
  next
    case False
    have "foldl (norm_step s) [] cs = [] @ cs"
      by (rule foldl_norm_step_fixed) (simp add: assms(1))
    then show ?thesis unfolding sp foldl_norm_step_skip using False by simp
  qed
  have "os_path_normpath r = r"
    using ne by (simp add: os_path_normpath_def Let_def sl fo) (simp add: r_def)
  then show ?thesis by (simp add: r_def)
qed

lemma initial_slashes_le: "initial_slashes p \<le> 2"
  by (simp add: initial_slashes_def)

theorem normpath_idem: "os_path_normpath (os_path_normpath p) = os_path_normpath p"
proof (cases "p = []")
  case True
  have "os_path_normpath ''.'' = ''.''" by code_simp
  with True show ?thesis by (simp add: os_path_normpath_def)
next
  case False
  define s where "s = initial_slashes p"
  define cs where "cs = foldl (norm_step s) [] (split_on sep p)"
  define r where "r = replicate s sep @ join_with [sep] cs"
  have nc: "norm_comps s cs"
    unfolding cs_def by (rule foldl_norm_step_comps) (auto simp: norm_comps_Nil dest: split_on_sep_free)
  have eq: "os_path_normpath p = (if r = [] then ''.'' else r)"
    using False unfolding r_def cs_def s_def by (simp add: os_path_normpath_def Let_def)
  show ?thesis
  proof (cases "s = 0 \<and> cs = []")
    case True
    have "os_path_normpath ''.'' = ''.''" by code_simp
    moreover have "r = []" using True by (simp add: r_def)
    ultimately show ?thesis using eq by simp
  next
    case nz: False
    have ne: "r \<noteq> []"
    proof (cases "s = 0")
      case True
      with nz have "cs \<noteq> []" by simp
      moreover have "\<forall>w \<in> set cs. w \<noteq> []" using nc by (simp add: norm_comps_def)
      ultimately have "join_with [sep] cs \<noteq> []" by (rule join_with_Cons_nonempty)
      then show ?thesis by (simp add: r_def)
    next
      case False
      then show ?thesis by (simp add: r_def)
    qed
    have "s \<le> 2" by (simp add: s_def initial_slashes_le)
    moreover have "s = 0 \<longrightarrow> cs \<noteq> []" using nz by blast
    ultimately have "os_path_normpath r = r"
      unfolding r_def using nc by (intro normpath_of_comps)
    with eq ne show ?thesis by simp
  qed
qed

section \<open>The paths and files that \<open>get_files\<close> builds\<close>

lemma join_with_snoc:
  "join_with s (acc @ [w]) = (if acc = [] then w else join_with s acc @ s @ w)"
  by (induction s acc rule: join_with.induct) auto

lemma os_path_join_filename:
  assumes "\<not> startswith fn sep"
  shows "os_path_join rd fn = fn \<or> (\<exists>a. os_path_join rd fn = a @ sep # fn)"
proof (cases "rd = []")
  case True
  then show ?thesis using assms by (simp add: os_path_join_def)
next
  case False
  show ?thesis
  proof (cases "endswith rd sep")
    case True
    then obtain a where "rd = a @ [sep]"
      using False by (cases rd rule: rev_cases) (auto simp: endswith_def)
    then show ?thesis using assms True by (simp add: os_path_join_def)
  next
    case e: False
    then show ?thesis using assms False by (simp add: os_path_join_def)
  qed
qed

lemma normpath_ends_with_filename:
  assumes "sep \<notin> set fn" and "fn \<noteq> []" and "fn \<noteq> ''.''" and "fn \<noteq> ''..''"
  shows "\<exists>pre. os_path_normpath (os_path_join rd fn) = pre @ fn"
proof -
  have ns: "\<not> startswith fn sep" using assms(1,2) by (cases fn) auto
  define p where "p = os_path_join rd fn"
  have pne: "p \<noteq> []" using os_path_join_filename [OF ns, of rd] assms(2) by (auto simp: p_def)
  have "\<exists>xs. split_on sep p = xs @ [fn]"
  proof -
    from os_path_join_filename [OF ns, of rd]
    consider "p = fn" | a where "p = a @ sep # fn" by (auto simp: p_def)
    then show ?thesis
    proof cases
      case 1
      then show ?thesis using assms(1) by (simp add: split_on_sep_free_word)
    next
      case 2
      then show ?thesis using assms(1)
        by (simp add: split_on_append_sep split_on_sep_free_word)
    qed
  qed
  then obtain xs where xs: "split_on sep p = xs @ [fn]" by blast
  define s where "s = initial_slashes p"
  define acc where "acc = foldl (norm_step s) [] xs"
  have fo: "foldl (norm_step s) [] (split_on sep p) = acc @ [fn]"
    using assms by (simp add: xs acc_def norm_step_def)
  have "os_path_normpath p = replicate s sep @ join_with [sep] (acc @ [fn])"
    using pne assms(2) unfolding s_def
    by (simp add: os_path_normpath_def Let_def fo [unfolded s_def] join_with_snoc)
  then show ?thesis by (auto simp: p_def join_with_snoc)
qed

lemma sep_notin_templates_md: "sep \<notin> set ''templates.md''"
  by (simp add: sep_def)

lemma normpath_templates_md:
  "os_path_normpath (os_path_join relative_dir ''templates.md'') \<noteq> ''templates''"
proof -
  obtain pre where "os_path_normpath (os_path_join relative_dir ''templates.md'') = pre @ ''templates.md''"
    using normpath_ends_with_filename [OF sep_notin_templates_md, of relative_dir] by auto
  moreover have "pre @ ''templates.md'' \<noteq> ''templates''"
  proof
    assume "pre @ ''templates.md'' = ''templates''"
    then have "last (pre @ ''templates.md'') = last ''templates''" by simp
    then show False by simp
  qed
  ultimately show ?thesis by simp
qed

lemma collect_files_mem:
  "f \<in> set (collect_files md from_dir relative_dir filenames) \<Longrightarrow>
     \<exists>filename \<in> set filenames.
        f = File_init md from_dir (os_path_normpath (os_path_join relative_dir filename)) (Some filename)
        \<and> \<not> filter_paths filename (os_path_normpath (os_path_join relative_dir filename)) False exclude"
  by (induction filenames) (auto simp: Let_def split: if_splits)

lemma walk_files_mem:
  "f \<in> set (walk_files md from_dir relative_dir tree) \<Longrightarrow>
     \<exists>rel filename.
        f = File_init md from_dir (os_path_normpath (os_path_join rel filename)) (Some filename)
        \<and> \<not> filter_paths filename (os_path_normpath (os_path_join rel filename)) False exclude"
proof (induction md from_dir relative_dir tree rule: walk_files.induct)
  case (1 md from_dir relative_dir subdirs filenames)
  from "1.prems" consider
      (here) "f \<in> set (collect_files md from_dir relative_dir (sort_files filenames))"
    | (below) dirname t where
        "dirname \<in> set (sort (prune_dirnames relative_dir (map fst subdirs) (map fst subdirs)))"
        "map_of subdirs dirname = Some t"
        "f \<in> set (walk_files md from_dir (os_path_normpath (os_path_join relative_dir dirname)) t)"
    by (auto simp: Let_def split: option.splits) metis
  then show ?case
  proof cases
    case here
    then show ?thesis by (blast dest: collect_files_mem)
  next
    case below
    then show ?thesis using "1.IH" [OF refl refl, of dirname t] by simp
  qed
qed

lemma get_files_mem:
  "f \<in> set (get_files md from_dir tree) \<Longrightarrow>
     \<exists>rel filename.
        f = File_init md from_dir (os_path_normpath (os_path_join rel filename)) (Some filename)
        \<and> \<not> filter_paths filename (os_path_normpath (os_path_join rel filename)) False exclude"
  unfolding get_files_def by (rule walk_files_mem)

lemma File_init_input_path: "input_path (File_init md from_dir path filename) = path"
  by (simp add: File_init_def Let_def split: prod.splits)

lemma File_init_output_path:
  "output_path (File_init md from_dir path filename) =
     get_output_path md (File_init md from_dir path filename)"
  by (simp add: File_init_def Let_def get_output_path_def is_documentation_page_def
      split: prod.splits)

lemma File_init_extension_None:
  "extension (File_init md from_dir path None) = lower (snd (os_path_splitext (os_path_basename path)))"
  by (simp add: File_init_def Let_def split: prod.splits)

lemma File_init_root_None:
  "root (File_init md from_dir path None) = fst (os_path_splitext (os_path_basename path))"
  by (simp add: File_init_def Let_def split: prod.splits)

lemma get_files_normalized:
  assumes "f \<in> set (get_files md from_dir tree)"
  shows "os_path_normpath (input_path f) = input_path f"
proof -
  from get_files_mem [OF assms] obtain rel filename where
    "f = File_init md from_dir (os_path_normpath (os_path_join rel filename)) (Some filename)"
    by blast
  then show ?thesis by (simp add: File_init_input_path normpath_idem)
qed

section \<open>Output paths\<close>

text \<open>
  C1. For a documentation page (its extension is in the markdown extensions), the
  output path is the normalised join of a directory and \<open>index.html\<close>; the directory
  is the parent directory of the input path when the root of the file name is
  \<open>index\<close> or \<open>README\<close>, and the input path without its extension otherwise. With
  \<open>.md\<close> and \<open>.markdown\<close> among the extensions, \<open>docs/page.md\<close> maps to
  \<open>docs/page/index.html\<close>, \<open>docs/index.md\<close> to \<open>docs/index.html\<close> and
  \<open>docs/README.markdown\<close> to \<open>docs/index.html\<close>.
\<close>

theorem output_path_documentation_page:
  "(is_documentation_page md (File_init md from_dir path filename) \<longrightarrow>
      output_path (File_init md from_dir path filename) =
        os_path_normpath (os_path_join
          (if root (File_init md from_dir path filename) = ''index''
              \<or> root (File_init md from_dir path filename) = ''README''
           then os_path_dirname path
           else fst (os_path_splitext path))
          ''index.html''))
   \<and> (''.md'' \<in> set md \<longrightarrow>
        output_path (File_init md from_dir ''docs/page.md'' None) = ''docs/page/index.html''
        \<and> output_path (File_init md from_dir ''docs/index.md'' None) = ''docs/index.html'')
   \<and> (''.markdown'' \<in> set md \<longrightarrow>
        output_path (File_init md from_dir ''docs/README.markdown'' None) = ''docs/index.html'')"
proof (intro conjI impI)
  assume "is_documentation_page md (File_init md from_dir path filename)"
  then show "output_path (File_init md from_dir path filename) =
        os_path_normpath (os_path_join
          (if root (File_init md from_dir path filename) = ''index''
              \<or> root (File_init md from_dir path filename) = ''README''
           then os_path_dirname path
           else fst (os_path_splitext path))
          ''index.html'')"
    by (simp add: File_init_output_path get_output_path_def File_init_input_path)
next
  assume md: "''.md'' \<in> set md"
  have e: "lower (snd (os_path_splitext (os_path_basename ''docs/page.md''))) = ''.md''"
    by code_simp
  have r: "fst (os_path_splitext (os_path_basename ''docs/page.md'')) = ''page''"
    by code_simp
  have n: "os_path_normpath (os_path_join (fst (os_path_splitext ''docs/page.md'')) ''index.html'')
           = ''docs/page/index.html''"
    by code_simp
  show "output_path (File_init md from_dir ''docs/page.md'' None) = ''docs/page/index.html''"
    using md
    by (simp add: File_init_output_path get_output_path_def is_documentation_page_def
        File_init_extension_None File_init_root_None File_init_input_path e r n)
next
  assume md: "''.md'' \<in> set md"
  have e: "lower (snd (os_path_splitext (os_path_basename ''docs/index.md''))) = ''.md''"
    by code_simp
  have r: "fst (os_path_splitext (os_path_basename ''docs/index.md'')) = ''index''"
    by code_simp
  have n: "os_path_normpath (os_path_join (os_path_dirname ''docs/index.md'') ''index.html'')
           = ''docs/index.html''"
    by code_simp
  show "output_path (File_init md from_dir ''docs/index.md'' None) = ''docs/index.html''"
    using md
    by (simp add: File_init_output_path get_output_path_def is_documentation_page_def
        File_init_extension_None File_init_root_None File_init_input_path e r n)
next
  assume md: "''.markdown'' \<in> set md"
  have e: "lower (snd (os_path_splitext (os_path_basename ''docs/README.markdown''))) = ''.markdown''"
    by code_simp
  have r: "fst (os_path_splitext (os_path_basename ''docs/README.markdown'')) = ''README''"
    by code_simp
  have n: "os_path_normpath (os_path_join (os_path_dirname ''docs/README.markdown'') ''index.html'')
           = ''docs/index.html''"
    by code_simp
  show "output_path (File_init md from_dir ''docs/README.markdown'' None) = ''docs/index.html''"
    using md
    by (simp add: File_init_output_path get_output_path_def is_documentation_page_def
        File_init_extension_None File_init_root_None File_init_input_path e r n)
qed

text \<open>The theorem at \<open>a/b/Page.MD\<close> and the three examples, for the extensions \<open>.md\<close> and \<open>.markdown\<close>.\<close>

theorem output_path_documentation_page_witness:
  "is_documentation_page [''.md'', ''.markdown''] (File_init [''.md'', ''.markdown''] ''src'' ''a/b/Page.MD'' None)
   \<and> output_path (File_init [''.md'', ''.markdown''] ''src'' ''a/b/Page.MD'' None) = ''a/b/Page/index.html''
   \<and> ''.md'' \<in> set [''.md'', ''.markdown'']
   \<and> output_path (File_init [''.md'', ''.markdown''] ''src'' ''docs/page.md'' None) = ''docs/page/index.html''
   \<and> output_path (File_init [''.md'', ''.markdown''] ''src'' ''docs/index.md'' None) = ''docs/index.html''
   \<and> ''.markdown'' \<in> set [''.md'', ''.markdown'']
   \<and> output_path (File_init [''.md'', ''.markdown''] ''src'' ''docs/README.markdown'' None) = ''docs/index.html''"
proof -
  have d: "is_documentation_page [''.md'', ''.markdown'']
             (File_init [''.md'', ''.markdown''] ''src'' ''a/b/Page.MD'' None)"
    by code_simp
  have r: "root (File_init [''.md'', ''.markdown''] ''src'' ''a/b/Page.MD'' None) = ''Page''"
    by code_simp
  have n: "os_path_normpath (os_path_join (fst (os_path_splitext ''a/b/Page.MD'')) ''index.html'')
           = ''a/b/Page/index.html''"
    by code_simp
  show ?thesis
    using output_path_documentation_page
            [of "[''.md'', ''.markdown'']" "''src''" "''a/b/Page.MD''" None] d
    by (simp add: r n)
qed

text \<open>
  C8. For every file that is not a documentation page, the output path equals the
  input path exactly. Input paths are normalised paths relative to the source root:
  the equality holds for every \<open>File\<close> built on a normalised path, and so for every
  file that \<open>get_files\<close> discovers, which is where the source builds its \<open>File\<close>s;
  \<open>img/logo.png\<close> maps to \<open>img/logo.png\<close>. (\<open>get_output_path\<close> returns
  \<open>os.path.normpath\<close> of the input path, and \<open>normpath\<close> leaves a normalised path
  as it is.)
\<close>

theorem output_path_other_file:
  "(\<not> is_documentation_page md (File_init md from_dir path filename) \<longrightarrow>
      output_path (File_init md from_dir path filename) = os_path_normpath path
      \<and> (os_path_normpath path = path \<longrightarrow>
           output_path (File_init md from_dir path filename)
             = input_path (File_init md from_dir path filename)))
   \<and> (\<forall>f \<in> set (get_files md from_dir tree).
          \<not> is_documentation_page md f \<longrightarrow> output_path f = input_path f)
   \<and> (''.png'' \<notin> set md \<longrightarrow>
          output_path (File_init md from_dir ''img/logo.png'' None) = ''img/logo.png'')"
proof (intro conjI impI ballI)
  assume nd: "\<not> is_documentation_page md (File_init md from_dir path filename)"
  then show o: "output_path (File_init md from_dir path filename) = os_path_normpath path"
    by (simp add: File_init_output_path get_output_path_def File_init_input_path)
  assume "os_path_normpath path = path"
  with o show "output_path (File_init md from_dir path filename)
                 = input_path (File_init md from_dir path filename)"
    by (simp add: File_init_input_path)
next
  fix f
  assume f: "f \<in> set (get_files md from_dir tree)" and nd: "\<not> is_documentation_page md f"
  from get_files_mem [OF f] obtain rel filename where
    eq: "f = File_init md from_dir (os_path_normpath (os_path_join rel filename)) (Some filename)"
    by blast
  have "output_path f = os_path_normpath (input_path f)"
    using nd unfolding eq by (simp add: File_init_output_path get_output_path_def)
  then show "output_path f = input_path f"
    using get_files_normalized [OF f] by simp
next
  assume png: "''.png'' \<notin> set md"
  have e: "lower (snd (os_path_splitext (os_path_basename ''img/logo.png''))) = ''.png''"
    by code_simp
  have n: "os_path_normpath ''img/logo.png'' = ''img/logo.png''"
    by code_simp
  show "output_path (File_init md from_dir ''img/logo.png'' None) = ''img/logo.png''"
    using png
    by (simp add: File_init_output_path get_output_path_def is_documentation_page_def
        File_init_extension_None File_init_input_path e n)
qed

theorem output_path_other_file_witness:
  "\<not> is_documentation_page [''.md''] (File_init [''.md''] ''docs'' ''img/logo.png'' None)
   \<and> os_path_normpath ''img/logo.png'' = ''img/logo.png''
   \<and> output_path (File_init [''.md''] ''docs'' ''img/logo.png'' None) = ''img/logo.png''
   \<and> input_path (File_init [''.md''] ''docs'' ''img/logo.png'' None) = ''img/logo.png''
   \<and> File_init [''.md''] ''docs'' ''img/logo.png'' (Some ''logo.png'')
        \<in> set (get_files [''.md''] ''docs'' (Dir [(''img'', Dir [] [''logo.png''])] [''index.md'']))
   \<and> output_path (File_init [''.md''] ''docs'' ''img/logo.png'' (Some ''logo.png''))
        = input_path (File_init [''.md''] ''docs'' ''img/logo.png'' (Some ''logo.png''))
   \<and> ''.png'' \<notin> set [''.md'']"
proof -
  have nd: "\<not> is_documentation_page [''.md''] (File_init [''.md''] ''docs'' ''img/logo.png'' None)"
    by code_simp
  have nd': "\<not> is_documentation_page [''.md'']
               (File_init [''.md''] ''docs'' ''img/logo.png'' (Some ''logo.png''))"
    by code_simp
  have n: "os_path_normpath ''img/logo.png'' = ''img/logo.png''"
    by code_simp
  have g: "get_files [''.md''] ''docs'' (Dir [(''img'', Dir [] [''logo.png''])] [''index.md''])
           = [File_init [''.md''] ''docs'' ''index.md'' (Some ''index.md''),
              File_init [''.md''] ''docs'' ''img/logo.png'' (Some ''logo.png'')]"
    by code_simp
  have png: "''.png'' \<notin> set [''.md'']" by simp
  show ?thesis
    using output_path_other_file
            [of "[''.md'']" "''docs''" "''img/logo.png''" None
                "Dir [(''img'', Dir [] [''logo.png''])] [''index.md'']"]
          nd nd' n png
    by (simp add: g File_init_input_path)
qed

section \<open>The default exclusions\<close>

text \<open>
  C7. With the default exclusion list, \<open>_filter_paths\<close> returns true for every
  entry whose base name starts with a dot, whatever its path and whether or not it
  is a directory, and for the directory \<open>templates\<close> at the source root; it returns
  false for a file named \<open>templates.md\<close>, in any directory.
\<close>

theorem default_exclusions:
  "filter_paths (CHR ''.'' # rest) path is_dir exclude
   \<and> filter_paths ''templates'' (os_path_normpath (os_path_join ''.'' ''templates'')) True exclude
   \<and> \<not> filter_paths ''templates.md''
          (os_path_normpath (os_path_join relative_dir ''templates.md'')) False exclude"
proof -
  have "os_path_normpath (os_path_join ''.'' ''templates'') = ''templates''"
    by code_simp
  then show ?thesis
    by (simp add: filter_paths_exclude normpath_templates_md)
qed

text \<open>
  C10. The pattern \<open>/templates\<close> does not end with \<open>/\<close>, so it applies to files
  too: with the default list, \<open>_filter_paths\<close> returns true for a regular file
  named \<open>templates\<close> at the source root, the loop over the root's file names drops
  it, and no file that \<open>get_files\<close> returns has the input path \<open>templates\<close>.
\<close>

theorem templates_file_excluded:
  "\<not> endswith ''/templates'' (CHR ''/'')
   \<and> filter_paths ''templates'' (os_path_normpath (os_path_join ''.'' ''templates'')) False exclude
   \<and> collect_files md from_dir ''.'' [''templates''] = []
   \<and> (\<forall>f \<in> set (get_files md from_dir tree). input_path f \<noteq> ''templates'')"
proof (intro conjI ballI)
  show "\<not> endswith ''/templates'' (CHR ''/'')" by (simp add: endswith_def)
  have n: "os_path_normpath (os_path_join ''.'' ''templates'') = ''templates''"
    by code_simp
  show "filter_paths ''templates'' (os_path_normpath (os_path_join ''.'' ''templates'')) False exclude"
    by (simp add: filter_paths_exclude n)
  show "collect_files md from_dir ''.'' [''templates''] = []"
    by (simp add: filter_paths_exclude n)
next
  fix f
  assume f: "f \<in> set (get_files md from_dir tree)"
  from get_files_mem [OF f] obtain rel filename where
    eq: "f = File_init md from_dir (os_path_normpath (os_path_join rel filename)) (Some filename)"
    and nf: "\<not> filter_paths filename (os_path_normpath (os_path_join rel filename)) False exclude"
    by blast
  from nf have "os_path_normpath (os_path_join rel filename) \<noteq> ''templates''"
    by (simp add: filter_paths_exclude)
  then show "input_path f \<noteq> ''templates''"
    by (simp add: eq File_init_input_path)
qed

theorem templates_file_excluded_witness:
  "map input_path (get_files [''.md''] ''docs'' (Dir [] [''templates'', ''about.md'']))
     = [''about.md'']
   \<and> ''about.md'' \<noteq> ''templates''
   \<and> collect_files [''.md''] ''docs'' ''.'' [''templates''] = []"
proof -
  have g: "map input_path (get_files [''.md''] ''docs'' (Dir [] [''templates'', ''about.md'']))
           = [''about.md'']"
    by code_simp
  show ?thesis
    using templates_file_excluded [of "[''.md'']" "''docs''" "Dir [] [''templates'', ''about.md'']"]
    by (simp add: g)
qed

section \<open>\<open>sort_files\<close> puts index files first\<close>

lemma cmp_lt_iff:
  "cmp_lt a b \<longleftrightarrow> a \<noteq> b \<and> \<not> is_index b \<and> (is_index a \<or> a < b)"
  by (simp add: cmp_lt_def compare_def is_index_def)

lemma cmp_lt_irrefl: "\<not> cmp_lt a a"
  by (simp add: cmp_lt_iff)

lemma cmp_lt_trans: "cmp_lt a b \<Longrightarrow> cmp_lt b c \<Longrightarrow> cmp_lt a c"
  by (auto simp: cmp_lt_iff)

lemma cmp_lt_incomparable_trans:
  assumes "\<not> cmp_lt a b" "\<not> cmp_lt b a" "\<not> cmp_lt b c" "\<not> cmp_lt c b"
  shows "\<not> cmp_lt a c \<and> \<not> cmp_lt c a"
  using assms by (auto simp: cmp_lt_iff)

lemma set_insort_cmp: "set (insort_cmp cmp x ys) = insert x (set ys)"
  by (induction ys) auto

lemma length_insort_cmp: "length (insort_cmp cmp x ys) = Suc (length ys)"
  by (induction ys) auto

lemma sorted_insort_cmp:
  "sorted_wrt (\<lambda>a b. \<not> cmp_lt b a) ys \<Longrightarrow>
   sorted_wrt (\<lambda>a b. \<not> cmp_lt b a) (insort_cmp compare x ys)"
proof (induction ys)
  case Nil
  then show ?case by simp
next
  case (Cons y ys)
  show ?case
  proof (cases "cmp_lt x y")
    case True
    have "\<not> cmp_lt w x" if "w \<in> set (y # ys)" for w
    proof
      assume "cmp_lt w x"
      then have "cmp_lt w y" using True by (rule cmp_lt_trans)
      with that Cons.prems show False by (auto simp: cmp_lt_irrefl)
    qed
    then show ?thesis using True Cons.prems by (auto simp: cmp_lt_def)
  next
    case False
    then show ?thesis using Cons by (auto simp: cmp_lt_def set_insort_cmp)
  qed
qed

lemma foldl_insort_sorted:
  "sorted_wrt (\<lambda>a b. \<not> cmp_lt b a) acc \<Longrightarrow>
   sorted_wrt (\<lambda>a b. \<not> cmp_lt b a) (foldl (\<lambda>acc x. insort_cmp compare x acc) acc xs)"
  by (induction xs arbitrary: acc) (auto simp: sorted_insort_cmp)

lemma foldl_insort_set:
  "set (foldl (\<lambda>acc x. insort_cmp cmp x acc) acc xs) = set acc \<union> set xs"
  by (induction xs arbitrary: acc) (auto simp: set_insort_cmp)

lemma foldl_insort_length:
  "length (foldl (\<lambda>acc x. insort_cmp cmp x acc) acc xs) = length acc + length xs"
  by (induction xs arbitrary: acc) (auto simp: length_insort_cmp)

lemma sort_files_sorted: "sorted_wrt (\<lambda>a b. \<not> cmp_lt b a) (sort_files filenames)"
  unfolding sort_files_def sorted_cmp_def by (rule foldl_insort_sorted) simp

lemma sort_files_set: "set (sort_files filenames) = set filenames"
  by (simp add: sort_files_def sorted_cmp_def foldl_insort_set)

lemma sort_files_length: "length (sort_files filenames) = length filenames"
  by (simp add: sort_files_def sorted_cmp_def foldl_insort_length)

text \<open>
  The same holds for any list without an inversion of \<open>cmp_lt\<close>, which is what
  a comparison sort returns.
\<close>

lemma index_first_of_sorted:
  assumes "sorted_wrt (\<lambda>a b. \<not> cmp_lt b a) ys"
    and "i < length ys" and "j < length ys"
    and "is_index (ys ! i)" and "\<not> is_index (ys ! j)"
  shows "i < j"
proof (rule ccontr)
  assume "\<not> i < j"
  moreover have "i \<noteq> j" using assms(4,5) by auto
  ultimately have "j < i" by simp
  with assms(1,2) have "\<not> cmp_lt (ys ! i) (ys ! j)"
    by (simp add: sorted_wrt_iff_nth_less)
  moreover have "cmp_lt (ys ! i) (ys ! j)"
    using assms(4,5) by (auto simp: cmp_lt_iff)
  ultimately show False by simp
qed

text \<open>
  C3. In the list that \<open>sort_files\<close> returns, every file name whose root is \<open>index\<close>
  stands before every file name whose root is different.
\<close>

theorem sort_files_index_first:
  assumes "i < length (sort_files filenames)" and "j < length (sort_files filenames)"
    and "fst (os_path_splitext (sort_files filenames ! i)) = ''index''"
    and "fst (os_path_splitext (sort_files filenames ! j)) \<noteq> ''index''"
  shows "i < j"
  using index_first_of_sorted [OF sort_files_sorted, of i filenames j] assms
  by (simp add: is_index_def)

theorem sort_files_index_first_witness:
  "sort_files [''b.md'', ''index.md'', ''a.md''] = [''index.md'', ''a.md'', ''b.md'']
   \<and> fst (os_path_splitext ''index.md'') = ''index''
   \<and> fst (os_path_splitext ''a.md'') \<noteq> ''index''
   \<and> (0::nat) < 1"
proof -
  have s: "sort_files [''b.md'', ''index.md'', ''a.md''] = [''index.md'', ''a.md'', ''b.md'']"
    by code_simp
  have i: "fst (os_path_splitext ''index.md'') = ''index''" by code_simp
  have a: "fst (os_path_splitext ''a.md'') \<noteq> ''index''" by code_simp
  show ?thesis
    using sort_files_index_first [of 0 "[''b.md'', ''index.md'', ''a.md'']" 1] i a
    by (simp add: s)
qed

section \<open>The plugin registry and hook dispatch\<close>

lemma registry_set_present:
  "name \<in> set (map fst reg) \<Longrightarrow> map fst (registry_set reg name inst) = map fst reg"
  by (induction reg) force+

lemma registry_set_absent:
  "name \<notin> set (map fst reg) \<Longrightarrow> registry_set reg name inst = reg @ [(name, inst)]"
  by (induction reg) auto

lemma map_of_registry_set:
  "map_of (registry_set reg name inst) = (map_of reg)(name \<mapsto> inst)"
  by (induction reg) (auto simp: fun_eq_iff)

lemma position_registry_set:
  "name \<in> set (map fst reg) \<Longrightarrow> position n (registry_set reg name inst) = position n reg"
  by (induction reg) force+

lemma foldl_registry_set_append:
  "distinct (map fst (reg @ ps)) \<Longrightarrow>
   foldl (\<lambda>r (n, p). registry_set r n p) reg ps = reg @ ps"
proof (induction ps arbitrary: reg)
  case Nil
  then show ?case by simp
next
  case (Cons np ps)
  obtain n p where np: "np = (n, p)" by (cases np)
  from Cons.prems have "n \<notin> set (map fst reg)" by (auto simp: np)
  then have "registry_set reg n p = reg @ [(n, p)]" by (rule registry_set_absent)
  moreover from Cons.prems have "distinct (map fst ((reg @ [(n, p)]) @ ps))" by (simp add: np)
  ultimately show ?case using Cons.IH [of "reg @ [(n, p)]"] by (simp add: np)
qed

text \<open>
  C9. Setting a name that is already registered overwrites the stored instance and
  leaves the sequence of names of \<open>items()\<close>, and so the position of the name,
  as it was (the other names keep their instances); a name that is not yet
  registered is added at the end, so that \<open>items()\<close> yields the pairs in insertion
  order.
\<close>

theorem registry_set_keeps_position:
  "(registry_contains reg name \<longrightarrow>
      registry_get (registry_set reg name inst) name = Inr inst
      \<and> map fst (items (registry_set reg name inst)) = map fst (items reg)
      \<and> position name (items (registry_set reg name inst)) = position name (items reg)
      \<and> (\<forall>other. other \<noteq> name \<longrightarrow>
            registry_get (registry_set reg name inst) other = registry_get reg other))
   \<and> (\<not> registry_contains reg name \<longrightarrow>
        items (registry_set reg name inst) = items reg @ [(name, inst)])
   \<and> (distinct (map fst ps) \<longrightarrow>
        items (foldl (\<lambda>r (n, p). registry_set r n p) [] ps) = ps)"
  using foldl_registry_set_append [of "[]" ps]
  by (auto simp: registry_contains_def registry_get_def items_def map_of_registry_set
      registry_set_present position_registry_set registry_set_absent)

theorem registry_set_keeps_position_witness:
  "registry_contains [(''foo'', DummyPlugin), (''bar'', DummyPlugin)] ''foo''
   \<and> map fst (items (registry_set [(''foo'', DummyPlugin), (''bar'', DummyPlugin)] ''foo''
                       (fst (load_config DummyPlugin [(''foo'', PStr ''new'')]))))
       = [''foo'', ''bar'']
   \<and> position ''foo'' (items (registry_set [(''foo'', DummyPlugin), (''bar'', DummyPlugin)] ''foo''
                       (fst (load_config DummyPlugin [(''foo'', PStr ''new'')]))))
       = Some 0
   \<and> registry_get (registry_set [(''foo'', DummyPlugin), (''bar'', DummyPlugin)] ''foo''
                       (fst (load_config DummyPlugin [(''foo'', PStr ''new'')]))) ''foo''
       = Inr (fst (load_config DummyPlugin [(''foo'', PStr ''new'')]))
   \<and> ''bar'' \<noteq> ''foo''
   \<and> registry_get (registry_set [(''foo'', DummyPlugin), (''bar'', DummyPlugin)] ''foo''
                       (fst (load_config DummyPlugin [(''foo'', PStr ''new'')]))) ''bar''
       = Inr DummyPlugin
   \<and> \<not> registry_contains [(''foo'', DummyPlugin)] ''bar''
   \<and> items (registry_set [(''foo'', DummyPlugin)] ''bar'' DummyPlugin)
       = [(''foo'', DummyPlugin), (''bar'', DummyPlugin)]
   \<and> distinct (map fst [(''foo'', DummyPlugin), (''bar'', DummyPlugin)])
   \<and> items (foldl (\<lambda>r (n, p). registry_set r n p) []
               [(''foo'', DummyPlugin), (''bar'', DummyPlugin)])
       = [(''foo'', DummyPlugin), (''bar'', DummyPlugin)]"
proof -
  have c: "registry_contains [(''foo'', DummyPlugin), (''bar'', DummyPlugin)] ''foo''"
    by (simp add: registry_contains_def)
  have n: "\<not> registry_contains [(''foo'', DummyPlugin)] ''bar''"
    by (simp add: registry_contains_def)
  have p: "position ''foo'' (items [(''foo'', DummyPlugin), (''bar'', DummyPlugin)]) = Some 0"
    by (simp add: items_def)
  have g: "registry_get [(''foo'', DummyPlugin), (''bar'', DummyPlugin)] ''bar'' = Inr DummyPlugin"
    by (simp add: registry_get_def)
  have d: "distinct (map fst [(''foo'', DummyPlugin), (''bar'', DummyPlugin)])"
    by simp
  show ?thesis
    using registry_set_keeps_position
            [of "[(''foo'', DummyPlugin), (''bar'', DummyPlugin)]" "''foo''"
                "fst (load_config DummyPlugin [(''foo'', PStr ''new'')])"
                "[(''foo'', DummyPlugin), (''bar'', DummyPlugin)]"]
          registry_set_keeps_position
            [of "[(''foo'', DummyPlugin)]" "''bar''" DummyPlugin "[]"]
          c n p g d
    by (simp add: items_def)
qed

lemma run_plugins_snoc:
  "run_plugins hook (ps @ [(name, inst)]) payload =
     (case run_plugins hook ps payload of
        Inl e \<Rightarrow> Inl e
      | Inr p \<Rightarrow>
          (case handlers inst hook of
             None \<Rightarrow> Inr p
           | Some handler \<Rightarrow>
               (case handler (config inst) p of
                  Inl e \<Rightarrow> Inl e
                | Inr None \<Rightarrow> Inr p
                | Inr (Some result) \<Rightarrow> Inr result)))"
proof (induction ps arbitrary: payload)
  case Nil
  then show ?case by (simp split: option.splits sum.splits)
next
  case (Cons np ps)
  obtain n p where np: "np = (n, p)" by (cases np)
  show ?case unfolding np using Cons.IH
    by (simp split: option.splits sum.splits)
qed

lemma run_plugins_no_handler:
  "\<forall>(name, inst) \<in> set ps. handlers inst hook = None \<Longrightarrow> run_plugins hook ps payload = Inr payload"
  by (induction ps) auto

lemma load_config_foo:
  "config (fst (load_config DummyPlugin [(''foo'', PStr s)])) ''foo'' = Some (PStr s)"
  "handlers (fst (load_config DummyPlugin [(''foo'', PStr s)])) = handlers DummyPlugin"
  by (simp_all add: load_config_def DummyPlugin_def)

lemma handlers_DummyPlugin_pre_page: "handlers DummyPlugin ''pre_page'' = Some on_pre_page"
  by (simp add: DummyPlugin_def)

text \<open>
  C2. Plugins run in registration order, each on the payload the previous ones left:
  dispatching on a registry to which a new plugin has just been added runs the
  plugins registered before it first, and then the new plugin's handler on their
  result; a handler that returns a value replaces the payload, and one that returns
  nothing, or a plugin without a handler, leaves it as it is. Two \<open>DummyPlugin\<close>s
  that prepend \<open>A\<close> and then \<open>B\<close> turn the \<open>pre_page\<close> payload \<open>X\<close> into \<open>B A X\<close>.
\<close>

theorem run_event_threads_payload:
  "(hook \<in> set events \<and> \<not> registry_contains reg name \<longrightarrow>
      run_event events (registry_set reg name inst) hook payload =
        (case run_event events reg hook payload of
           Inl e \<Rightarrow> Inl e
         | Inr p \<Rightarrow>
             (case handlers inst hook of
                None \<Rightarrow> Inr p
              | Some handler \<Rightarrow>
                  (case handler (config inst) p of
                     Inl e \<Rightarrow> Inl e
                   | Inr None \<Rightarrow> Inr p
                   | Inr (Some result) \<Rightarrow> Inr result))))
   \<and> (hook \<in> set events \<and> handlers inst hook = Some handler
        \<and> handler (config inst) payload = Inr (Some result) \<longrightarrow>
        run_event events ((name, inst) # rest) hook payload = run_event events rest hook result)
   \<and> (hook \<in> set events \<and> handlers inst hook = Some handler
        \<and> handler (config inst) payload = Inr None \<longrightarrow>
        run_event events ((name, inst) # rest) hook payload = run_event events rest hook payload)
   \<and> (''pre_page'' \<in> set events \<longrightarrow>
        run_event events
          (registry_set
             (registry_set [] ''first'' (fst (load_config DummyPlugin [(''foo'', PStr ''A'')])))
             ''second'' (fst (load_config DummyPlugin [(''foo'', PStr ''B'')])))
          ''pre_page'' ''X'' = Inr ''B A X'')"
  (is "(?A1 \<longrightarrow> ?B1) \<and> (?A2 \<longrightarrow> ?B2) \<and> (?A3 \<longrightarrow> ?B3) \<and> (?A4 \<longrightarrow> ?B4)")
proof (intro conjI impI)
  assume ?A1
  then show ?B1
    by (simp add: run_event_def items_def registry_contains_def registry_set_absent
        run_plugins_snoc)
next
  assume ?A2
  then show ?B2 by (simp add: run_event_def items_def)
next
  assume ?A3
  then show ?B3 by (simp add: run_event_def items_def)
next
  assume ?A4
  then show ?B4
    by (simp add: run_event_def items_def load_config_foo handlers_DummyPlugin_pre_page
        on_pre_page_def)
qed

text \<open>
  The theorem at the \<open>post_nav\<close> handler of \<open>DummyPlugin\<close>, which returns nothing, at
  its \<open>pre_page\<close> handler, which returns a new payload, and at the example.
\<close>

theorem run_event_threads_payload_witness:
  "''post_nav'' \<in> set [''pre_page'', ''post_nav'']
   \<and> \<not> registry_contains [(''first'', fst (load_config DummyPlugin [(''foo'', PStr ''A'')]))] ''second''
   \<and> run_event [''pre_page'', ''post_nav'']
        (registry_set [(''first'', fst (load_config DummyPlugin [(''foo'', PStr ''A'')]))]
           ''second'' DummyPlugin)
        ''post_nav'' ''nav item'' = Inr ''nav item''
   \<and> handlers DummyPlugin ''post_nav'' = Some on_post_nav
   \<and> on_post_nav (config DummyPlugin) ''nav item'' = Inr None
   \<and> run_event [''pre_page'', ''post_nav''] [(''first'', DummyPlugin)] ''post_nav'' ''nav item''
       = Inr ''nav item''
   \<and> ''pre_page'' \<in> set [''pre_page'', ''post_nav'']
   \<and> handlers (fst (load_config DummyPlugin [(''foo'', PStr ''A'')])) ''pre_page'' = Some on_pre_page
   \<and> on_pre_page (config (fst (load_config DummyPlugin [(''foo'', PStr ''A'')]))) ''X''
       = Inr (Some ''A X'')
   \<and> run_event [''pre_page'', ''post_nav'']
        [(''first'', fst (load_config DummyPlugin [(''foo'', PStr ''A'')]))] ''pre_page'' ''X''
       = Inr ''A X''
   \<and> run_event [''pre_page'', ''post_nav'']
          (registry_set
             (registry_set [] ''first'' (fst (load_config DummyPlugin [(''foo'', PStr ''A'')])))
             ''second'' (fst (load_config DummyPlugin [(''foo'', PStr ''B'')])))
          ''pre_page'' ''X'' = Inr ''B A X''"
proof -
  define ev where "ev = [''pre_page'', ''post_nav'']"
  define pA where "pA = fst (load_config DummyPlugin [(''foo'', PStr ''A'')])"
  have h: "handlers DummyPlugin ''post_nav'' = Some on_post_nav"
    by (simp add: DummyPlugin_def)
  have hA: "handlers pA ''pre_page'' = Some on_pre_page"
    by (simp add: pA_def load_config_foo handlers_DummyPlugin_pre_page)
  have oA: "on_pre_page (config pA) ''X'' = Inr (Some ''A X'')"
    by (simp add: pA_def load_config_foo on_pre_page_def)
  have on: "on_post_nav (config DummyPlugin) ''nav item'' = Inr None"
    by (simp add: on_post_nav_def)
  have c: "\<not> registry_contains [(''first'', pA)] ''second''"
    by (simp add: registry_contains_def)
  have m1: "''post_nav'' \<in> set ev" and m2: "''pre_page'' \<in> set ev"
    by (simp_all add: ev_def)
  have r: "run_event ev [(''first'', pA)] ''post_nav'' ''nav item'' = Inr ''nav item''"
    by (simp add: run_event_def items_def pA_def load_config_foo h on_post_nav_def ev_def)
  have e: "run_event ev [] ''post_nav'' ''nav item'' = Inr ''nav item''"
    "run_event ev [] ''pre_page'' ''A X'' = Inr ''A X''"
    by (simp_all add: run_event_def items_def ev_def)
  note t1 = run_event_threads_payload
              [where hook = "''post_nav''" and events = ev and reg = "[(''first'', pA)]"
                 and name = "''second''" and inst = DummyPlugin and payload = "''nav item''"
                 and handler = on_post_nav and rest = "[]"]
  note t2 = run_event_threads_payload
              [where hook = "''post_nav''" and events = ev and reg = "[]"
                 and name = "''first''" and inst = DummyPlugin and payload = "''nav item''"
                 and handler = on_post_nav and rest = "[]"]
  note t3 = run_event_threads_payload
              [where hook = "''pre_page''" and events = ev and reg = "[]"
                 and name = "''first''" and inst = pA and payload = "''X''"
                 and handler = on_pre_page and result = "''A X''" and rest = "[]"]
  have w1: "run_event ev (registry_set [(''first'', pA)] ''second'' DummyPlugin)
              ''post_nav'' ''nav item'' = Inr ''nav item''"
    using t1 m1 c by (simp add: r h on)
  have w2: "run_event ev [(''first'', DummyPlugin)] ''post_nav'' ''nav item'' = Inr ''nav item''"
    using t2 m1 h on by (simp add: e)
  have w3: "run_event ev [(''first'', pA)] ''pre_page'' ''X'' = Inr ''A X''"
    using t3 m2 hA oA by (simp add: e)
  have w4: "run_event ev
          (registry_set (registry_set [] ''first'' pA)
             ''second'' (fst (load_config DummyPlugin [(''foo'', PStr ''B'')])))
          ''pre_page'' ''X'' = Inr ''B A X''"
    using t3 m2 unfolding pA_def by blast
  show ?thesis
    using m1 m2 c w1 h on w2 hA oA w3 w4 unfolding ev_def pA_def by blast
qed

text \<open>
  C6. Dispatching a recognized hook for which no registered plugin defines a handler
  returns the payload unchanged; dispatching a hook name outside the recognized set
  fails with \<open>UnknownHookError\<close>, whatever the registry and the payload.
\<close>

theorem run_event_unhandled_or_unknown:
  "(hook \<in> set events \<and> (\<forall>(name, inst) \<in> set (items reg). handlers inst hook = None) \<longrightarrow>
      run_event events reg hook payload = Inr payload)
   \<and> (hook \<notin> set events \<longrightarrow> run_event events reg hook payload = Inl (UnknownHookError hook))"
  by (simp add: run_event_def run_plugins_no_handler)

theorem run_event_unhandled_or_unknown_witness:
  "''env'' \<in> set [''pre_page'', ''post_nav'', ''env'']
   \<and> handlers DummyPlugin ''env'' = None
   \<and> run_event [''pre_page'', ''post_nav'', ''env''] [(''sample'', DummyPlugin)] ''env'' ''page content''
       = Inr ''page content''
   \<and> run_event [''pre_page'', ''post_nav'', ''env''] [] ''pre_page'' ''page content''
       = Inr ''page content''
   \<and> ''unknown'' \<notin> set [''pre_page'', ''post_nav'', ''env'']
   \<and> run_event [''pre_page'', ''post_nav'', ''env''] [(''sample'', DummyPlugin)] ''unknown'' ''page content''
       = Inl (UnknownHookError ''unknown'')"
proof -
  have h: "handlers DummyPlugin ''env'' = None" by (simp add: DummyPlugin_def)
  show ?thesis
    using run_event_unhandled_or_unknown
            [of "''env''" "[''pre_page'', ''post_nav'', ''env'']" "[(''sample'', DummyPlugin)]"
                "''page content''"]
          run_event_unhandled_or_unknown
            [of "''pre_page''" "[''pre_page'', ''post_nav'', ''env'']" "[]" "''page content''"]
          run_event_unhandled_or_unknown
            [of "''unknown''" "[''pre_page'', ''post_nav'', ''env'']" "[(''sample'', DummyPlugin)]"
                "''page content''"]
          h
    by (simp add: items_def)
qed

section \<open>Plugin configuration\<close>

lemma mentions_pair: "mentions k (key, text) \<longleftrightarrow> key = k"
  by (simp add: mentions_def)

lemma validate_entries_undeclared:
  "k \<notin> set (map fst sch) \<Longrightarrow>
     filter (mentions k) (snd (validate_entries sch opts (c, es))) = filter (mentions k) es
     \<and> fst (validate_entries sch opts (c, es)) k = c k"
proof (induction sch arbitrary: c es)
  case Nil
  then show ?case by simp
next
  case (Cons entry sch)
  obtain key validate dflt where e: "entry = (key, validate, dflt)" by (cases entry)
  from Cons.prems have k: "key \<noteq> k" "k \<notin> set (map fst sch)" by (auto simp: e)
  show ?case unfolding e using Cons.IH [OF k(2)] k(1)
    by (simp add: mentions_pair split: option.splits sum.splits)
qed

lemma validate_entries_all_valid:
  "\<forall>(key, validate, dflt) \<in> set sch. \<forall>raw. map_of opts key = Some raw \<longrightarrow> (\<exists>v. validate raw = Inr v)
   \<Longrightarrow> snd (validate_entries sch opts (c, es)) = es"
proof (induction sch arbitrary: c es)
  case Nil
  then show ?case by simp
next
  case (Cons entry sch)
  obtain key validate dflt where e: "entry = (key, validate, dflt)" by (cases entry)
  from Cons.prems have
    here: "\<forall>raw. map_of opts key = Some raw \<longrightarrow> (\<exists>v. validate raw = Inr v)"
    and rest: "\<forall>(key, validate, dflt) \<in> set sch. \<forall>raw. map_of opts key = Some raw \<longrightarrow> (\<exists>v. validate raw = Inr v)"
    by (auto simp: e)
  show ?case unfolding e using Cons.IH [OF rest] here
    by (auto split: option.splits sum.splits)
qed

lemma validate_entries_absent_keys:
  "\<forall>key \<in> set (map fst sch). map_of opts key = None
   \<Longrightarrow> snd (validate_entries sch opts (c, es)) = es"
  by (rule validate_entries_all_valid) auto

lemma validate_entries_failing:
  "distinct (map fst sch) \<Longrightarrow> (k, validate, dflt) \<in> set sch \<Longrightarrow> map_of opts k = Some raw
   \<Longrightarrow> validate raw = Inl reason \<Longrightarrow>
     filter (mentions k) (snd (validate_entries sch opts (c, es)))
       = filter (mentions k) es @ [(k, reason)]
     \<and> fst (validate_entries sch opts (c, es)) k = Some dflt"
proof (induction sch arbitrary: c es)
  case Nil
  then show ?case by simp
next
  case (Cons entry sch)
  obtain key validate' dflt' where e: "entry = (key, validate', dflt')" by (cases entry)
  show ?case
  proof (cases "key = k")
    case True
    from Cons.prems(1) have nk: "k \<notin> set (map fst sch)" by (simp add: e True)
    then have "(k, validate, dflt) \<notin> set sch" by force
    with Cons.prems(2) have same: "validate' = validate" "dflt' = dflt" by (auto simp: e True)
    show ?thesis unfolding e True same
      using validate_entries_undeclared [OF nk] Cons.prems(3,4)
      by (simp add: mentions_pair)
  next
    case False
    from Cons.prems have d: "distinct (map fst sch)" and m: "(k, validate, dflt) \<in> set sch"
      using False by (auto simp: e)
    show ?thesis unfolding e
      using Cons.IH [OF d m Cons.prems(3,4)] False
      by (simp add: mentions_pair split: option.splits sum.splits)
  qed
qed

lemma validate_entries_errors_from_options:
  "set (snd (validate_entries sch opts (c, es))) \<subseteq> set es \<union> {m. fst m \<in> set (map fst opts)}"
proof (induction sch arbitrary: c es)
  case Nil
  then show ?case by simp
next
  case (Cons entry sch)
  obtain key validate dflt where e: "entry = (key, validate, dflt)" by (cases entry)
  show ?case unfolding e
    using Cons.IH
    by (auto split: option.splits sum.splits dest!: map_of_SomeD) force+
qed

lemma unknown_keys_undeclared:
  "distinct (map fst opts) \<Longrightarrow> k \<in> set (map fst opts) \<Longrightarrow> k \<notin> set (map fst sch) \<Longrightarrow>
     length (filter (mentions k) (unknown_keys sch opts)) = 1"
proof (induction opts)
  case Nil
  then show ?case by simp
next
  case (Cons kv opts)
  obtain key raw where kv: "kv = (key, raw)" by (cases kv)
  show ?case
  proof (cases "key = k")
    case True
    from Cons.prems(1) have "k \<notin> set (map fst opts)" by (simp add: kv True)
    then have "filter (mentions k) (unknown_keys sch opts) = []"
      by (induction opts) (auto simp: mentions_pair)
    then show ?thesis using Cons.prems(3) by (simp add: kv True mentions_pair)
  next
    case False
    then show ?thesis using Cons by (auto simp: kv mentions_pair)
  qed
qed

lemma unknown_keys_declared:
  "set (map fst opts) \<subseteq> set (map fst sch) \<Longrightarrow> unknown_keys sch opts = []"
  by (induction opts) force+


lemma load_config_parts:
  "fst (snd (load_config self opts)) = snd (validate_entries (config_scheme self) opts (Map.empty, []))"
  "snd (snd (load_config self opts)) = unknown_keys (config_scheme self) opts"
  "config (fst (load_config self opts)) = fst (validate_entries (config_scheme self) opts (Map.empty, []))"
  by (simp_all add: load_config_def split: prod.splits)

text \<open>
  C5 (as amended). For a scheme with distinct keys and options with distinct keys:
  if the options have a key that the scheme does not declare, exactly one warning
  names that key and its value is not stored; there is no error provided every
  declared key present in the options passes its validator, in particular when the
  undeclared key is the only key of the options, where the warning is the only one.
  If the options give a declared key a value that fails the key's validator, exactly
  one error names that key (it is the only error, and there is no warning, when it
  is the only key of the options), and the key's entry in \<open>config\<close> is the scheme's
  default.
\<close>

theorem load_config_messages:
  assumes "load_config self opts = (self', errors, warnings)"
    and "distinct (map fst (config_scheme self))"
    and "distinct (map fst opts)"
  shows
    "(k \<in> set (map fst opts) \<and> k \<notin> set (map fst (config_scheme self)) \<longrightarrow>
        length (filter (mentions k) warnings) = 1
        \<and> config self' k = None
        \<and> ((\<forall>(key, validate, dflt) \<in> set (config_scheme self).
               \<forall>raw. map_of opts key = Some raw \<longrightarrow> (\<exists>v. validate raw = Inr v))
             \<longrightarrow> errors = [])
        \<and> (map fst opts = [k] \<longrightarrow> length warnings = 1 \<and> errors = []))
     \<and> ((k, validate, dflt) \<in> set (config_scheme self) \<and> map_of opts k = Some raw
          \<and> validate raw = Inl reason \<longrightarrow>
        filter (mentions k) errors = [(k, reason)]
        \<and> config self' k = Some dflt
        \<and> (map fst opts = [k] \<longrightarrow> errors = [(k, reason)] \<and> warnings = []))"
    (is "(?A1 \<longrightarrow> ?B1) \<and> (?A2 \<longrightarrow> ?B2)")
proof -
  define sch where "sch = config_scheme self"
  have errors: "errors = snd (validate_entries sch opts (Map.empty, []))"
    and warnings: "warnings = unknown_keys sch opts"
    and config: "config self' = fst (validate_entries sch opts (Map.empty, []))"
    using assms(1) load_config_parts [of self opts] by (simp_all add: sch_def)
  have undeclared:
    "length (filter (mentions k) warnings) = 1 \<and> config self' k = None
     \<and> ((\<forall>(key, validate, dflt) \<in> set sch.
            \<forall>raw. map_of opts key = Some raw \<longrightarrow> (\<exists>v. validate raw = Inr v))
          \<longrightarrow> errors = [])
     \<and> (map fst opts = [k] \<longrightarrow> length warnings = 1 \<and> errors = [])"
    if k: "k \<in> set (map fst opts)" "k \<notin> set (map fst sch)"
  proof (intro conjI impI)
    show "length (filter (mentions k) warnings) = 1"
      unfolding warnings using assms(3) k by (rule unknown_keys_undeclared)
    show "config self' k = None"
      unfolding config using validate_entries_undeclared [OF k(2)] by simp
    show "errors = []"
      if "\<forall>(key, validate, dflt) \<in> set sch.
            \<forall>raw. map_of opts key = Some raw \<longrightarrow> (\<exists>v. validate raw = Inr v)"
      unfolding errors using that by (rule validate_entries_all_valid)
    assume single: "map fst opts = [k]"
    then obtain raw' where opts: "opts = [(k, raw')]" by (cases opts) auto
    show "length warnings = 1" using k(2) by (simp add: warnings opts)
    have "\<forall>key \<in> set (map fst sch). map_of opts key = None"
      using k(2) by (auto simp: opts)
    then show "errors = []" unfolding errors by (rule validate_entries_absent_keys)
  qed
  have failing:
    "filter (mentions k) errors = [(k, reason)] \<and> config self' k = Some dflt
     \<and> (map fst opts = [k] \<longrightarrow> errors = [(k, reason)] \<and> warnings = [])"
    if f: "(k, validate, dflt) \<in> set sch" "map_of opts k = Some raw" "validate raw = Inl reason"
  proof (intro conjI impI)
    have d: "distinct (map fst sch)" using assms(2) by (simp add: sch_def)
    note fl = validate_entries_failing [OF d f, of Map.empty "[]"]
    show m: "filter (mentions k) errors = [(k, reason)]"
      unfolding errors using fl by simp
    show "config self' k = Some dflt"
      unfolding config using fl by simp
    assume single: "map fst opts = [k]"
    have "set errors \<subseteq> {m. fst m \<in> set (map fst opts)}"
      unfolding errors using validate_entries_errors_from_options [of sch opts Map.empty "[]"]
      by simp
    then have "\<forall>m \<in> set errors. mentions k m"
      unfolding single by (auto simp: mentions_def)
    then have "filter (mentions k) errors = errors" by simp
    with m show "errors = [(k, reason)]" by simp
    have "k \<in> set (map fst sch)" using f(1) by force
    then have "set (map fst opts) \<subseteq> set (map fst sch)" unfolding single by simp
    then show "warnings = []" unfolding warnings by (rule unknown_keys_declared)
  qed
  show ?thesis
  proof (rule conjI)
    show "?A1 \<longrightarrow> ?B1"
    proof
      assume ?A1
      then have "k \<in> set (map fst opts)" "k \<notin> set (map fst sch)" by (simp_all add: sch_def)
      then show ?B1 unfolding sch_def [symmetric] by (rule undeclared)
    qed
    show "?A2 \<longrightarrow> ?B2"
    proof
      assume ?A2
      then have "(k, validate, dflt) \<in> set sch" "map_of opts k = Some raw"
        "validate raw = Inl reason" by (simp_all add: sch_def)
      then show ?B2 by (rule failing)
    qed
  qed
qed

lemma load_config_invalid_key:
  "load_config DummyPlugin [(''invalid_key'', PStr ''value'')]
   = (fst (load_config DummyPlugin [(''invalid_key'', PStr ''value'')]),
      [], [(''invalid_key'', ''Unrecognised configuration name: invalid_key'')])"
  by (simp add: load_config_def DummyPlugin_def)

lemma load_config_foo_42:
  "load_config DummyPlugin [(''foo'', PInt 42)]
   = (fst (load_config DummyPlugin [(''foo'', PInt 42)]),
      [(''foo'', ''Expected type: str but received: int'')], [])"
  by (simp add: load_config_def DummyPlugin_def)

lemma config_scheme_DummyPlugin:
  "config_scheme DummyPlugin = [(''foo'', Type_str, PStr ''default foo''), (''bar'', Type_int, PInt 0)]"
  by (simp add: DummyPlugin_def)

theorem load_config_messages_witness:
  "''invalid_key'' \<in> set (map fst [(''invalid_key'', PStr ''value'')])
   \<and> ''invalid_key'' \<notin> set (map fst (config_scheme DummyPlugin))
   \<and> snd (snd (load_config DummyPlugin [(''invalid_key'', PStr ''value'')]))
       = [(''invalid_key'', ''Unrecognised configuration name: invalid_key'')]
   \<and> fst (snd (load_config DummyPlugin [(''invalid_key'', PStr ''value'')])) = []
   \<and> config (fst (load_config DummyPlugin [(''invalid_key'', PStr ''value'')])) ''invalid_key'' = None
   \<and> (''foo'', Type_str, PStr ''default foo'') \<in> set (config_scheme DummyPlugin)
   \<and> map_of [(''foo'', PInt 42)] ''foo'' = Some (PInt 42)
   \<and> Type_str (PInt 42) = Inl ''Expected type: str but received: int''
   \<and> fst (snd (load_config DummyPlugin [(''foo'', PInt 42)]))
       = [(''foo'', ''Expected type: str but received: int'')]
   \<and> config (fst (load_config DummyPlugin [(''foo'', PInt 42)])) ''foo'' = Some (PStr ''default foo'')"
proof -
  have d: "distinct (map fst (config_scheme DummyPlugin))"
    by (simp add: config_scheme_DummyPlugin)
  have a: "''invalid_key'' \<in> set (map fst [(''invalid_key'', PStr ''value'')])
           \<and> ''invalid_key'' \<notin> set (map fst (config_scheme DummyPlugin))"
    by (simp add: config_scheme_DummyPlugin)
  have b: "(''foo'', Type_str, PStr ''default foo'') \<in> set (config_scheme DummyPlugin)
           \<and> map_of [(''foo'', PInt 42)] ''foo'' = Some (PInt 42)
           \<and> Type_str (PInt 42) = Inl ''Expected type: str but received: int''"
    by (simp add: config_scheme_DummyPlugin)
  have d1: "distinct (map fst [(''invalid_key'', PStr ''value'')])" by simp
  have d2: "distinct (map fst [(''foo'', PInt 42)])" by simp
  note w1 = load_config_messages [OF load_config_invalid_key d d1, of "''invalid_key''"]
  note w2 = load_config_messages [OF load_config_foo_42 d d2,
              of "''foo''" Type_str "PStr ''default foo''" "PInt 42"
                 "''Expected type: str but received: int''"]
  have c1: "config (fst (load_config DummyPlugin [(''invalid_key'', PStr ''value'')])) ''invalid_key'' = None"
    using w1 a by blast
  have c2: "config (fst (load_config DummyPlugin [(''foo'', PInt 42)])) ''foo'' = Some (PStr ''default foo'')"
    using w2 b by blast
  have e1: "snd (snd (load_config DummyPlugin [(''invalid_key'', PStr ''value'')]))
       = [(''invalid_key'', ''Unrecognised configuration name: invalid_key'')]"
    and e2: "fst (snd (load_config DummyPlugin [(''invalid_key'', PStr ''value'')])) = []"
    by (subst load_config_invalid_key, simp)+
  have e3: "fst (snd (load_config DummyPlugin [(''foo'', PInt 42)]))
       = [(''foo'', ''Expected type: str but received: int'')]"
    by (subst load_config_foo_42, simp)
  show ?thesis using a b c1 c2 e1 e2 e3 by blast
qed

text \<open>
  The claim as it was stated (options containing an undeclared key yield zero errors)
  fails for \<open>DummyPlugin\<close> with the options \<open>{'invalid_key': 'value', 'foo': 42}\<close>.
\<close>

theorem load_config_messages_counterexample:
  "''invalid_key'' \<in> set (map fst [(''invalid_key'', PStr ''value''), (''foo'', PInt 42)])
   \<and> ''invalid_key'' \<notin> set (map fst (config_scheme DummyPlugin))
   \<and> fst (snd (load_config DummyPlugin [(''invalid_key'', PStr ''value''), (''foo'', PInt 42)]))
       = [(''foo'', ''Expected type: str but received: int'')]
   \<and> fst (snd (load_config DummyPlugin [(''invalid_key'', PStr ''value''), (''foo'', PInt 42)]))
       \<noteq> []"
  by (simp add: load_config_def DummyPlugin_def)

end
